theory Spec2Isabelle
  imports Complex_Main
begin

section \<open>Values, exceptions and arrays shared by the three scripts\<close>

text \<open>
  The scripts compute on NumPy floating-point arrays. A floating-point value is modelled
  as a real number or the not-a-number value \<open>NaN\<close>; rounding, infinities and physical
  units are not modelled. Arithmetic propagates \<open>NaN\<close>.
\<close>

datatype fl = NaN | Fin real

fun fl_op2 :: "(real \<Rightarrow> real \<Rightarrow> real) \<Rightarrow> fl \<Rightarrow> fl \<Rightarrow> fl" where
  "fl_op2 f (Fin x) (Fin y) = Fin (f x y)"
| "fl_op2 f _ _ = NaN"

definition hypot :: "fl \<Rightarrow> fl \<Rightarrow> fl" where
  \<comment> \<open>\<open>np.sqrt(a**2 + b**2)\<close> on one element\<close>
  "hypot a b = fl_op2 (\<lambda>x y. sqrt (x\<^sup>2 + y\<^sup>2)) a b"

text \<open>
  Python exceptions are values. Both handlers of the scripts are \<open>except Exception\<close>;
  every error of the model is such an exception.
\<close>

datatype exn = KeyError | IndexError | ValueError | TypeError | OSError | OtherError string

type_synonym grid = "fl list list"

definition shape2 :: "grid \<Rightarrow> nat \<times> nat" where
  \<comment> \<open>\<open>a.shape\<close> of a two-dimensional array, kept as its list of rows\<close>
  "shape2 g = (length g, (case g of [] \<Rightarrow> 0 | r # _ \<Rightarrow> length r))"

definition has_shape :: "nat \<Rightarrow> nat \<Rightarrow> grid \<Rightarrow> bool" where
  "has_shape ny nx g = (length g = ny \<and> list_all (\<lambda>r. length r = nx) g)"

fun sequence_exn :: "(exn + 'a) list \<Rightarrow> exn + 'a list" where
  "sequence_exn [] = Inr []"
| "sequence_exn (r # rs) =
     (case r of Inl e \<Rightarrow> Inl e
      | Inr x \<Rightarrow> (case sequence_exn rs of Inl e \<Rightarrow> Inl e | Inr xs \<Rightarrow> Inr (x # xs)))"

definition stretch_to :: "nat \<Rightarrow> 'a list \<Rightarrow> exn + 'a list" where
  \<comment> \<open>NumPy broadcasting of one axis to length \<open>n\<close>: equal length, or length one repeated\<close>
  "stretch_to n xs =
     (if length xs = n then Inr xs
      else if length xs = 1 then Inr (replicate n (hd xs))
      else Inl ValueError)"

definition broadcast_to :: "nat \<Rightarrow> nat \<Rightarrow> grid \<Rightarrow> exn + grid" where
  "broadcast_to ny nx g =
     (case stretch_to ny g of Inl e \<Rightarrow> Inl e
      | Inr rows \<Rightarrow> sequence_exn (map (stretch_to nx) rows))"

definition bcast_len :: "nat \<Rightarrow> nat \<Rightarrow> exn + nat" where
  \<comment> \<open>the common length of one axis of two operands\<close>
  "bcast_len a b =
     (if a = b then Inr a else if a = 1 then Inr b else if b = 1 then Inr a
      else Inl ValueError)"

definition stretch :: "nat \<Rightarrow> 'a list \<Rightarrow> 'a list" where
  "stretch n xs = (if length xs = n then xs else replicate n (hd xs))"

definition zip_bcast :: "('a \<Rightarrow> 'b \<Rightarrow> exn + 'c) \<Rightarrow> 'a list \<Rightarrow> 'b list \<Rightarrow> exn + 'c list" where
  \<comment> \<open>an elementwise binary operation along one axis, with broadcasting\<close>
  "zip_bcast f xs ys =
     (case bcast_len (length xs) (length ys) of Inl e \<Rightarrow> Inl e
      | Inr n \<Rightarrow> sequence_exn (map (\<lambda>(x, y). f x y) (zip (stretch n xs) (stretch n ys))))"

definition grid_op2 :: "(fl \<Rightarrow> fl \<Rightarrow> fl) \<Rightarrow> grid \<Rightarrow> grid \<Rightarrow> exn + grid" where
  "grid_op2 f = zip_bcast (zip_bcast (\<lambda>a b. Inr (f a b)))"

section \<open>calc_WRF_ThetaE_Analysis: process_multiple_levels_iterative\<close>

subsection \<open>Arrays, datasets and the libraries\<close>

text \<open>
  A five-dimensional output array \<open>(member, Time, level, south_north, west_east)\<close>:
  its shape, and its cells as nested lists whose innermost two levels are a grid.
\<close>

record ndarray5 =
  shape :: "nat \<times> nat \<times> nat \<times> nat \<times> nat"
  cells :: "grid list list list"

definition np_full_nan :: "nat \<Rightarrow> nat \<Rightarrow> nat \<Rightarrow> nat \<Rightarrow> nat \<Rightarrow> ndarray5" where
  \<comment> \<open>\<open>np.full((n_members, n_times, n_levels, ny, nx), np.nan, dtype=np.float32)\<close>\<close>
  "np_full_nan nm nt nl ny nx =
     \<lparr>shape = (nm, nt, nl, ny, nx),
      cells = replicate nm (replicate nt (replicate nl (replicate ny (replicate nx NaN))))\<rparr>"

definition getitem :: "ndarray5 \<Rightarrow> nat \<Rightarrow> nat \<Rightarrow> nat \<Rightarrow> grid" where
  "getitem a m t l = cells a ! m ! t ! l"

definition setitem :: "ndarray5 \<Rightarrow> nat \<Rightarrow> nat \<Rightarrow> nat \<Rightarrow> grid \<Rightarrow> exn + ndarray5" where
  \<comment> \<open>\<open>a[m, t, l] = v\<close>: the value is broadcast to the slot's shape\<close>
  "setitem a m t l v =
     (case shape a of (nm, nt, nl, ny, nx) \<Rightarrow>
        if m < nm \<and> t < nt \<and> l < nl then
          (case broadcast_to ny nx v of Inl e \<Rightarrow> Inl e
           | Inr g \<Rightarrow>
               Inr (a\<lparr>cells := (cells a)[m := (cells a ! m)[t := (cells a ! m ! t)[l := g]]]\<rparr>))
        else Inl IndexError)"

text \<open>
  An opened input dataset: its coordinates, and \<open>ds_sel ds var m t lev\<close> for
  \<open>ds.sel(member=m, Time=t, interp_level=lev)[var].values\<close>, which raises when a label or
  the variable is absent.
\<close>

record dataset =
  ds_XLONG :: grid
  ds_XLAT :: grid
  ds_Time :: "int list"
  ds_member :: "int list"
  ds_interp_level :: "int list"
  ds_sel :: "string \<Rightarrow> int \<Rightarrow> int \<Rightarrow> int \<Rightarrow> exn + grid"

datatype attr = Text string | Levels_hPa "int list" | Count nat | Timestamp int | Source string

record data_var =
  dims :: "string list"
  data :: ndarray5
  var_attrs :: "(string \<times> attr) list"

record output_ds =
  coord_member :: "int list"
  coord_Time :: "int list"
  coord_level :: "int list"
  coord_XLAT :: grid
  coord_XLONG :: grid
  data_vars :: "(string \<times> data_var) list"
  global_attrs :: "(string \<times> attr) list"

text \<open>
  What the script calls outside the repository: xarray's file access, MetPy's operators
  (each may raise), the clock and the file system.
\<close>

record wrf_env =
  open_dataset :: "string \<Rightarrow> exn + dataset"
  lat_lon_grid_deltas :: "grid \<Rightarrow> grid \<Rightarrow> exn + grid \<times> grid"
  geospatial_gradient :: "grid \<Rightarrow> grid \<Rightarrow> grid \<Rightarrow> exn + grid \<times> grid"
  divergence :: "grid \<Rightarrow> grid \<Rightarrow> grid \<Rightarrow> grid \<Rightarrow> exn + grid"
  vorticity :: "grid \<Rightarrow> grid \<Rightarrow> grid \<Rightarrow> grid \<Rightarrow> exn + grid"
  xr_assemble :: "output_ds \<Rightarrow> exn option"
  to_netcdf :: "string \<Rightarrow> output_ds \<Rightarrow> string list \<Rightarrow> exn option"
  getsize :: "string \<Rightarrow> exn + nat"
  datetime_now :: int
  makedirs :: "string \<Rightarrow> exn option"

text \<open>The console lines that report a decision or a failure; banners are left out.\<close>

datatype event =
    Warning_missing_levels "int list"
  | Processing_available_levels "int list"
  | Error_processing int nat int exn
  | Stats_valid string nat nat
  | No_valid_data string
  | File_written nat
  | Error_writing_output exn
  | All_completed

type_synonym output_arrays = "(string \<times> ndarray5) list"

subsection \<open>Level selection (lines 62-67)\<close>

definition check_levels :: "int list \<Rightarrow> int list \<Rightarrow> int list \<times> event list" where
  "check_levels available_levels LEVELS =
     (let missing_levels = filter (\<lambda>level. level \<notin> set available_levels) LEVELS in
      if missing_levels \<noteq> [] then
        (let LEVELS' = filter (\<lambda>level. level \<in> set available_levels) LEVELS in
         (LEVELS', [Warning_missing_levels missing_levels, Processing_available_levels LEVELS']))
      else (LEVELS, []))"

subsection \<open>One (member, time, level) combination (lines 114-138)\<close>

definition var_names :: "string list" where
  "var_names = [''eth'', ''dtedx'', ''dtedy'', ''absthe'', ''divg'', ''vort'']"

definition init_output_arrays :: "nat \<Rightarrow> nat \<Rightarrow> nat \<Rightarrow> nat \<Rightarrow> nat \<Rightarrow> output_arrays" where
  \<comment> \<open>lines 88-95\<close>
  "init_output_arrays nm nt nl ny nx = map (\<lambda>k. (k, np_full_nan nm nt nl ny nx)) var_names"

definition slice_fields ::
  "wrf_env \<Rightarrow> dataset \<Rightarrow> dataset \<Rightarrow> grid \<Rightarrow> grid \<Rightarrow> int \<Rightarrow> int \<Rightarrow> int \<Rightarrow> exn + (string \<times> grid) list" where
  \<comment> \<open>lines 116-126: the fields of one slice, paired with the array each is stored in\<close>
  "slice_fields env ds_eth ds_wind dx dy member time level =
     (case ds_sel ds_eth ''eth'' member time level of Inl e \<Rightarrow> Inl e | Inr eth_slice \<Rightarrow>
      case ds_sel ds_wind ''ua'' member time level of Inl e \<Rightarrow> Inl e | Inr u_slice \<Rightarrow>
      case ds_sel ds_wind ''va'' member time level of Inl e \<Rightarrow> Inl e | Inr v_slice \<Rightarrow>
      case geospatial_gradient env eth_slice dx dy of Inl e \<Rightarrow> Inl e
      | Inr (dtheta_e_dx, dtheta_e_dy) \<Rightarrow>
      case grid_op2 hypot dtheta_e_dx dtheta_e_dy of Inl e \<Rightarrow> Inl e | Inr abs_grad_theta_e \<Rightarrow>
      case divergence env u_slice v_slice dx dy of Inl e \<Rightarrow> Inl e | Inr divergence_field \<Rightarrow>
      case vorticity env u_slice v_slice dx dy of Inl e \<Rightarrow> Inl e | Inr vorticity_field \<Rightarrow>
        Inr [(''eth'', eth_slice), (''dtedx'', dtheta_e_dx), (''dtedy'', dtheta_e_dy),
             (''absthe'', abs_grad_theta_e), (''divg'', divergence_field),
             (''vort'', vorticity_field)])"

definition assign_slot ::
  "output_arrays \<Rightarrow> string \<Rightarrow> nat \<Rightarrow> nat \<Rightarrow> nat \<Rightarrow> grid \<Rightarrow> exn + output_arrays" where
  \<comment> \<open>\<open>output_arrays[k][m_idx, t_idx, l_idx] = v\<close>\<close>
  "assign_slot arrs k m t l v =
     (case map_of arrs k of None \<Rightarrow> Inl KeyError
      | Some a \<Rightarrow> (case setitem a m t l v of Inl e \<Rightarrow> Inl e
                   | Inr a' \<Rightarrow> Inr (map (\<lambda>(k', b). if k' = k then (k', a') else (k', b)) arrs)))"

fun store_fields ::
  "output_arrays \<Rightarrow> nat \<Rightarrow> nat \<Rightarrow> nat \<Rightarrow> (string \<times> grid) list \<Rightarrow> output_arrays \<times> exn option" where
  \<comment> \<open>lines 129-134: the assignments in order; one that raises leaves the earlier ones done\<close>
  "store_fields arrs m t l [] = (arrs, None)"
| "store_fields arrs m t l ((k, v) # kvs) =
     (case assign_slot arrs k m t l v of Inl e \<Rightarrow> (arrs, Some e)
      | Inr arrs' \<Rightarrow> store_fields arrs' m t l kvs)"

definition try_slice ::
  "wrf_env \<Rightarrow> dataset \<Rightarrow> dataset \<Rightarrow> grid \<Rightarrow> grid \<Rightarrow> output_arrays \<Rightarrow>
   nat \<Rightarrow> int \<Rightarrow> nat \<Rightarrow> int \<Rightarrow> nat \<Rightarrow> int \<Rightarrow> output_arrays \<times> exn option" where
  \<comment> \<open>the body of the \<open>try\<close>\<close>
  "try_slice env ds_eth ds_wind dx dy arrs m_idx member t_idx time l_idx level =
     (case slice_fields env ds_eth ds_wind dx dy member time level of
        Inl e \<Rightarrow> (arrs, Some e)
      | Inr fs \<Rightarrow> store_fields arrs m_idx t_idx l_idx fs)"

subsection \<open>The triple loop (lines 104-138)\<close>

record loop_state =
  arrays :: output_arrays
  current_iteration :: nat
  console :: "event list"

definition level_step ::
  "wrf_env \<Rightarrow> dataset \<Rightarrow> dataset \<Rightarrow> grid \<Rightarrow> grid \<Rightarrow> nat \<Rightarrow> int \<Rightarrow> nat \<Rightarrow> int \<Rightarrow>
   nat \<times> int \<Rightarrow> loop_state \<Rightarrow> loop_state" where
  \<comment> \<open>\<open>except Exception as e: print(...); continue\<close>\<close>
  "level_step env ds_eth ds_wind dx dy m_idx member t_idx time = (\<lambda>(l_idx, level) st.
     (case try_slice env ds_eth ds_wind dx dy (arrays st) m_idx member t_idx time l_idx level of
        (arrs, None) \<Rightarrow>
          st\<lparr>arrays := arrs, current_iteration := current_iteration st + 1\<rparr>
      | (arrs, Some e) \<Rightarrow>
          st\<lparr>arrays := arrs, current_iteration := current_iteration st + 1,
             console := console st @ [Error_processing member (t_idx + 1) level e]\<rparr>))"

definition time_step ::
  "wrf_env \<Rightarrow> dataset \<Rightarrow> dataset \<Rightarrow> grid \<Rightarrow> grid \<Rightarrow> int list \<Rightarrow> nat \<Rightarrow> int \<Rightarrow>
   nat \<times> int \<Rightarrow> loop_state \<Rightarrow> loop_state" where
  "time_step env ds_eth ds_wind dx dy LEVELS m_idx member = (\<lambda>(t_idx, time) st.
     fold (level_step env ds_eth ds_wind dx dy m_idx member t_idx time) (enumerate 0 LEVELS) st)"

definition member_step ::
  "wrf_env \<Rightarrow> dataset \<Rightarrow> dataset \<Rightarrow> grid \<Rightarrow> grid \<Rightarrow> int list \<Rightarrow> int list \<Rightarrow>
   nat \<times> int \<Rightarrow> loop_state \<Rightarrow> loop_state" where
  "member_step env ds_eth ds_wind dx dy LEVELS times_c = (\<lambda>(m_idx, member) st.
     fold (time_step env ds_eth ds_wind dx dy LEVELS m_idx member) (enumerate 0 times_c) st)"

definition triple_loop ::
  "wrf_env \<Rightarrow> dataset \<Rightarrow> dataset \<Rightarrow> grid \<Rightarrow> grid \<Rightarrow> int list \<Rightarrow> int list \<Rightarrow> int list \<Rightarrow>
   loop_state \<Rightarrow> loop_state" where
  "triple_loop env ds_eth ds_wind dx dy members times_c LEVELS st =
     fold (member_step env ds_eth ds_wind dx dy LEVELS times_c) (enumerate 0 members) st"

subsection \<open>Statistics, assembly and serialization (lines 144-213)\<close>

definition count_valid :: "ndarray5 \<Rightarrow> nat" where
  \<comment> \<open>\<open>len(data[~np.isnan(data)])\<close>\<close>
  "count_valid a = length (filter (\<lambda>x. x \<noteq> NaN) (concat (concat (concat (concat (cells a))))))"

definition array_size :: "ndarray5 \<Rightarrow> nat" where
  "array_size a = (case shape a of (nm, nt, nl, ny, nx) \<Rightarrow> nm * nt * nl * ny * nx)"

definition stats_events :: "output_arrays \<Rightarrow> event list" where
  \<comment> \<open>lines 147-152; the printed minimum and maximum are left out\<close>
  "stats_events arrs = map (\<lambda>(var_name, a).
     if count_valid a > 0 then Stats_valid var_name (count_valid a) (array_size a)
     else No_valid_data var_name) arrs"

definition var_configs :: "(string \<times> string \<times> string) list" where
  "var_configs =
     [(''eth'', ''K'', ''Equivalent potential temperature''),
      (''dtedx'', ''K/m'', ''Zonal gradient of equivalent potential temperature''),
      (''dtedy'', ''K/m'', ''Meridional gradient of equivalent potential temperature''),
      (''absthe'', ''K/m'', ''Absolute gradient of equivalent potential temperature''),
      (''divg'', ''1/s'', ''Horizontal divergence''),
      (''vort'', ''1/s'', ''Relative vorticity'')]"

definition dims_5d :: "string list" where
  "dims_5d = [''member'', ''Time'', ''level'', ''south_north'', ''west_east'']"

definition build_output_ds ::
  "wrf_env \<Rightarrow> string \<Rightarrow> int list \<Rightarrow> int list \<Rightarrow> int list \<Rightarrow> grid \<Rightarrow> grid \<Rightarrow> output_arrays \<Rightarrow>
   exn + output_ds" where
  \<comment> \<open>lines 156-197\<close>
  "build_output_ds env INPUT_DIR members times_c LEVELS lats lons arrs =
     (case sequence_exn (map (\<lambda>(var_name, units_str, long_name).
              (case map_of arrs var_name of None \<Rightarrow> Inl KeyError
               | Some a \<Rightarrow> Inr (var_name,
                   \<lparr>dims = dims_5d, data = a,
                    var_attrs = [(''units'', Text units_str), (''long_name'', Text long_name),
                                 (''pressure_levels'', Levels_hPa LEVELS)]\<rparr>))) var_configs) of
        Inl e \<Rightarrow> Inl e
      | Inr vars \<Rightarrow>
          Inr \<lparr>coord_member = members, coord_Time = times_c, coord_level = LEVELS,
               coord_XLAT = lats, coord_XLONG = lons, data_vars = vars,
               global_attrs =
                 [(''title'', Text ''Multi-level equivalent potential temperature analysis''),
                  (''description'', Levels_hPa LEVELS),
                  (''source'', Source INPUT_DIR),
                  (''pressure_levels'', Levels_hPa LEVELS),
                  (''processing_date'', Timestamp (datetime_now env)),
                  (''levels_processed'', Count (length LEVELS)),
                  (''processing_method'',
                   Text ''Iterative member-time-level processing for memory efficiency'')]\<rparr>)"

text \<open>
  The outcome of a run: the console, the files written, and the exception that ended it,
  if one did.
\<close>

record run =
  run_console :: "event list"
  run_written :: "(string \<times> output_ds) list"
  run_raised :: "exn option"

definition output_try_body ::
  "wrf_env \<Rightarrow> string \<Rightarrow> string \<Rightarrow> int list \<Rightarrow> int list \<Rightarrow> int list \<Rightarrow> grid \<Rightarrow> grid \<Rightarrow>
   output_arrays \<Rightarrow> (string \<times> output_ds) list \<times> (exn + nat)" where
  \<comment> \<open>lines 156-209, the body of the \<open>try\<close>: the files it has written, and the exception it
      raised or the size of the written file\<close>
  "output_try_body env INPUT_DIR OUTPUT_FILE members times_c LEVELS lats lons arrs =
     (case build_output_ds env INPUT_DIR members times_c LEVELS lats lons arrs of
        Inl e \<Rightarrow> ([], Inl e)
      | Inr output_ds \<Rightarrow>
     (case xr_assemble env output_ds of
        Some e \<Rightarrow> ([], Inl e)
      | None \<Rightarrow>
     (case to_netcdf env OUTPUT_FILE output_ds (map fst (data_vars output_ds)) of
        Some e \<Rightarrow> ([], Inl e)
      | None \<Rightarrow>
     (case getsize env OUTPUT_FILE of
        Inl e \<Rightarrow> ([(OUTPUT_FILE, output_ds)], Inl e)
      | Inr sz \<Rightarrow> ([(OUTPUT_FILE, output_ds)], Inr sz)))))"

definition write_output ::
  "wrf_env \<Rightarrow> string \<Rightarrow> string \<Rightarrow> int list \<Rightarrow> int list \<Rightarrow> int list \<Rightarrow> grid \<Rightarrow> grid \<Rightarrow>
   output_arrays \<Rightarrow> event list \<Rightarrow> run" where
  \<comment> \<open>lines 155-213: \<open>try: ... except Exception as e: print(...); raise\<close>\<close>
  "write_output env INPUT_DIR OUTPUT_FILE members times_c LEVELS lats lons arrs con =
     (case output_try_body env INPUT_DIR OUTPUT_FILE members times_c LEVELS lats lons arrs of
        (written, Inl e) \<Rightarrow>
          \<lparr>run_console = con @ [Error_writing_output e], run_written = written,
           run_raised = Some e\<rparr>
      | (written, Inr sz) \<Rightarrow>
          \<lparr>run_console = con @ [File_written sz], run_written = written, run_raised = None\<rparr>)"

subsection \<open>The function and the script's main block\<close>

definition raised_early :: "event list \<Rightarrow> exn \<Rightarrow> run" where
  "raised_early con e = \<lparr>run_console = con, run_written = [], run_raised = Some e\<rparr>"

definition run_loop ::
  "wrf_env \<Rightarrow> dataset \<Rightarrow> dataset \<Rightarrow> grid \<Rightarrow> grid \<Rightarrow> int list \<Rightarrow> event list \<Rightarrow> loop_state" where
  \<comment> \<open>lines 78-138: allocation of the six arrays and the triple loop\<close>
  "run_loop env ds_eth ds_wind dx dy LEVELS con =
     (let members = ds_member ds_eth; times_c = ds_Time ds_eth;
          n_members = length members; n_times = length times_c; n_levels = length LEVELS;
          (ny, nx) = shape2 (ds_XLAT ds_eth)
      in triple_loop env ds_eth ds_wind dx dy members times_c LEVELS
           \<lparr>arrays = init_output_arrays n_members n_times n_levels ny nx,
            current_iteration = 0, console = con\<rparr>)"

definition process_multiple_levels_iterative ::
  "wrf_env \<Rightarrow> string \<Rightarrow> string \<Rightarrow> int list \<Rightarrow> run" where
  \<comment> \<open>\<open>LEVELS0\<close> is the parameter \<open>LEVELS\<close> as passed; the check of line 70 is the
      \<open>times[0]\<close> of an empty coordinate; closing the datasets (lines 141-142) is
      left out\<close>
  "process_multiple_levels_iterative env INPUT_DIR OUTPUT_FILE LEVELS0 =
     (case open_dataset env (INPUT_DIR @ ''/eth.nc'') of Inl e \<Rightarrow> raised_early [] e
      | Inr ds_eth \<Rightarrow>
     (case open_dataset env (INPUT_DIR @ ''/ua,va.nc'') of Inl e \<Rightarrow> raised_early [] e
      | Inr ds_wind \<Rightarrow>
     (case check_levels (ds_interp_level ds_eth) LEVELS0 of (LEVELS, warn) \<Rightarrow>
      if ds_Time ds_eth = [] then raised_early warn IndexError
      else
     (case lat_lon_grid_deltas env (ds_XLONG ds_eth) (ds_XLAT ds_eth) of
        Inl e \<Rightarrow> raised_early warn e
      | Inr (dx, dy) \<Rightarrow>
          (let st = run_loop env ds_eth ds_wind dx dy LEVELS warn
           in write_output env INPUT_DIR OUTPUT_FILE (ds_member ds_eth) (ds_Time ds_eth) LEVELS
                (ds_XLAT ds_eth) (ds_XLONG ds_eth) (arrays st)
                (console st @ stats_events (arrays st)))))))"

definition OUTPUT_DIR :: string where
  "OUTPUT_DIR = ''./output/theta_e/WRF''"

definition INPUT_DIR :: string where
  "INPUT_DIR = ''./extract_wrf_to_nc''"

definition OUTPUT_FILE :: string where
  "OUTPUT_FILE = OUTPUT_DIR @ ''/the_gra.nc''"

definition main :: "wrf_env \<Rightarrow> int list \<Rightarrow> run \<times> int" where
  \<comment> \<open>the \<open>__main__\<close> block with the parsed levels; an uncaught exception ends the
      interpreter with exit status 1\<close>
  "main env LEVEL =
     (case makedirs env OUTPUT_DIR of
        Some e \<Rightarrow> (raised_early [] e, 1)
      | None \<Rightarrow>
          (let r = process_multiple_levels_iterative env INPUT_DIR OUTPUT_FILE LEVEL
           in case run_raised r of
                Some e \<Rightarrow> (r, 1)
              | None \<Rightarrow> (r\<lparr>run_console := run_console r @ [All_completed]\<rparr>, 0)))"

subsection \<open>Slots of the output arrays and the outcome of one combination\<close>

definition nan_grid :: "nat \<Rightarrow> nat \<Rightarrow> grid" where
  "nan_grid ny nx = replicate ny (replicate nx NaN)"

definition read_slot :: "output_arrays \<Rightarrow> string \<Rightarrow> nat \<Rightarrow> nat \<Rightarrow> nat \<Rightarrow> grid option" where
  \<comment> \<open>\<open>output_arrays[k][m_idx, t_idx, l_idx]\<close>, if there is an array named \<open>k\<close>\<close>
  "read_slot arrs k m t l = map_option (\<lambda>a. getitem a m t l) (map_of arrs k)"

definition slice_outcome ::
  "wrf_env \<Rightarrow> dataset \<Rightarrow> dataset \<Rightarrow> grid \<Rightarrow> grid \<Rightarrow> nat \<Rightarrow> nat \<Rightarrow> int \<Rightarrow> int \<Rightarrow> int \<Rightarrow>
   exn + (string \<times> grid) list" where
  \<comment> \<open>the body of the \<open>try\<close> without the arrays it writes to: the first exception among
      the computation of the fields and the broadcasts of the six assignments, or the
      six values to be stored under their names\<close>
  "slice_outcome env ds_eth ds_wind dx dy ny nx member time level =
     (case slice_fields env ds_eth ds_wind dx dy member time level of
        Inl e \<Rightarrow> Inl e
      | Inr fs \<Rightarrow>
          sequence_exn (map (\<lambda>(k, v).
            (case broadcast_to ny nx v of Inl e \<Rightarrow> Inl e | Inr g \<Rightarrow> Inr (k, g))) fs))"

definition operators_on_grid :: "wrf_env \<Rightarrow> grid \<Rightarrow> grid \<Rightarrow> nat \<Rightarrow> nat \<Rightarrow> bool" where
  \<comment> \<open>the derivative operators, when they return, return fields of the grid's shape\<close>
  "operators_on_grid env dx dy ny nx =
     ((\<forall>f gx gy. geospatial_gradient env f dx dy = Inr (gx, gy) \<longrightarrow>
         has_shape ny nx gx \<and> has_shape ny nx gy) \<and>
      (\<forall>u v d. divergence env u v dx dy = Inr d \<longrightarrow> has_shape ny nx d) \<and>
      (\<forall>u v z. vorticity env u v dx dy = Inr z \<longrightarrow> has_shape ny nx z))"

definition wf_arr :: "nat \<Rightarrow> nat \<Rightarrow> nat \<Rightarrow> nat \<Rightarrow> nat \<Rightarrow> ndarray5 \<Rightarrow> bool" where
  \<comment> \<open>the cells agree with the shape in the three outer dimensions\<close>
  "wf_arr nm nt nl ny nx a =
     (shape a = (nm, nt, nl, ny, nx) \<and> length (cells a) = nm \<and>
      (\<forall>i < nm. length (cells a ! i) = nt \<and> (\<forall>j < nt. length (cells a ! i ! j) = nl)))"

definition wf_arrs :: "nat \<Rightarrow> nat \<Rightarrow> nat \<Rightarrow> nat \<Rightarrow> nat \<Rightarrow> output_arrays \<Rightarrow> bool" where
  "wf_arrs nm nt nl ny nx arrs =
     (map fst arrs = var_names \<and> list_all (\<lambda>(k, a). wf_arr nm nt nl ny nx a) arrs)"

definition slot_after ::
  "wrf_env \<Rightarrow> dataset \<Rightarrow> dataset \<Rightarrow> grid \<Rightarrow> grid \<Rightarrow> nat \<Rightarrow> nat \<Rightarrow> int \<Rightarrow> int \<Rightarrow> int \<Rightarrow>
   string \<Rightarrow> grid option \<Rightarrow> grid option" where
  \<comment> \<open>the content of a slot after its combination, from its content before\<close>
  "slot_after env ds_eth ds_wind dx dy ny nx member time level k old =
     (case slice_outcome env ds_eth ds_wind dx dy ny nx member time level of
        Inl e \<Rightarrow> old
      | Inr stored \<Rightarrow> (case map_of stored k of None \<Rightarrow> old | Some g \<Rightarrow> Some g))"

subsection \<open>A small input: one member, one time, levels 875 and 850 on a 2 x 2 grid\<close>

definition nan_where :: "grid \<Rightarrow> grid" where
  \<comment> \<open>a field that is zero where the argument is a number and NaN where it is NaN\<close>
  "nan_where g = map (map (\<lambda>x. fl_op2 (\<lambda>a b. a - b) x x)) g"

definition ex_field :: grid where
  "ex_field = [[Fin 300, Fin 301], [Fin 302, Fin 303]]"

definition ex_ds :: "grid \<Rightarrow> dataset" where
  "ex_ds field =
     \<lparr>ds_XLONG = [[Fin 120, Fin 121], [Fin 120, Fin 121]],
      ds_XLAT = [[Fin 23, Fin 23], [Fin 24, Fin 24]],
      ds_Time = [0], ds_member = [1], ds_interp_level = [875, 850],
      ds_sel = (\<lambda>var m t lev.
        if m = 1 \<and> t = 0 \<and> (lev = 875 \<or> lev = 850) then Inr field else Inl KeyError)\<rparr>"

definition ex_env :: "grid \<Rightarrow> exn option \<Rightarrow> wrf_env" where
  \<comment> \<open>an environment whose operators accept fields on the 2 x 2 grid only, and whose
      serialization raises the given exception, if any\<close>
  "ex_env field failure =
     \<lparr>open_dataset = (\<lambda>p. Inr (ex_ds field)),
      lat_lon_grid_deltas = (\<lambda>lons lats. Inr ([[Fin 1000], [Fin 1000]], [[Fin 1000, Fin 1000]])),
      geospatial_gradient = (\<lambda>f dx dy.
        if has_shape 2 2 f then Inr (nan_where f, nan_where f) else Inl ValueError),
      divergence = (\<lambda>u v dx dy.
        if has_shape 2 2 u \<and> has_shape 2 2 v then Inr (nan_where u) else Inl ValueError),
      vorticity = (\<lambda>u v dx dy.
        if has_shape 2 2 u \<and> has_shape 2 2 v then Inr (nan_where v) else Inl ValueError),
      xr_assemble = (\<lambda>ds. None),
      to_netcdf = (\<lambda>p ds enc. failure),
      getsize = (\<lambda>p. Inr 4096),
      datetime_now = 0,
      makedirs = (\<lambda>p. None)\<rparr>"

definition ex_wind :: dataset where
  \<comment> \<open>a wind file that lacks the level 850\<close>
  "ex_wind =
     \<lparr>ds_XLONG = [[Fin 120, Fin 121], [Fin 120, Fin 121]],
      ds_XLAT = [[Fin 23, Fin 23], [Fin 24, Fin 24]],
      ds_Time = [0], ds_member = [1], ds_interp_level = [875],
      ds_sel = (\<lambda>var m t lev.
        if m = 1 \<and> t = 0 \<and> lev = 875 then Inr ex_field else Inl KeyError)\<rparr>"

definition ex_nan_field :: grid where
  \<comment> \<open>a slice that is missing everywhere, as a level below the terrain is\<close>
  "ex_nan_field = [[NaN, NaN], [NaN, NaN]]"

definition ex_env_no_time :: wrf_env where
  \<comment> \<open>the same environment, whose input files have a \<open>Time\<close> coordinate of length zero\<close>
  "ex_env_no_time =
     (ex_env ex_field None)\<lparr>open_dataset := (\<lambda>p. Inr ((ex_ds ex_field)\<lparr>ds_Time := []\<rparr>))\<rparr>"

section \<open>ana_duration_hours\<close>

text \<open>
  The column \<open>duration_hours\<close> of the table is a list of floating-point values, one per
  row; a cell that is empty in the file is NaN. \<open>len(df)\<close> is the length of the list.
\<close>

subsection \<open>The frequency table (lines 50-53)\<close>

fun dropna :: "fl list \<Rightarrow> real list" where
  "dropna [] = []"
| "dropna (NaN # xs) = dropna xs"
| "dropna (Fin x # xs) = x # dropna xs"

definition value_counts :: "fl list \<Rightarrow> (real \<times> nat) list" where
  \<comment> \<open>\<open>Series.value_counts()\<close>: NaN is dropped, equal values are counted together, the
      most frequent value comes first\<close>
  "value_counts col =
     (let vals = dropna col
      in sort_key (\<lambda>(v, c). - int c) (map (\<lambda>v. (v, count_list vals v)) (remdups vals)))"

definition sort_index :: "(real \<times> nat) list \<Rightarrow> (real \<times> nat) list" where
  "sort_index s = sort_key fst s"

definition duration_counts :: "fl list \<Rightarrow> (real \<times> nat) list" where
  "duration_counts col = sort_index (value_counts col)"

definition distribution_lines :: "fl list \<Rightarrow> (real \<times> nat \<times> real) list" where
  \<comment> \<open>one printed line per entry: the duration, the count and the percentage; the
      formatting of the three numbers is not modelled\<close>
  "distribution_lines col =
     map (\<lambda>(duration, count). (duration, count, real count / real (length col) * 100))
       (duration_counts col)"

subsection \<open>The jittered scatter points (lines 92-110)\<close>

text \<open>
  NumPy's global random generator: \<open>seed_state n\<close> is the state that \<open>np.random.seed(n)\<close>
  installs, and \<open>normal_draw g loc scale n\<close> is the sample \<open>np.random.normal(loc, scale, n)\<close>
  drawn in state \<open>g\<close>, with the state after it.
\<close>

record 'g np_random =
  seed_state :: "nat \<Rightarrow> 'g"
  normal_draw :: "'g \<Rightarrow> real \<Rightarrow> real \<Rightarrow> nat \<Rightarrow> real list \<times> 'g"

record scatter_call =
  sc_x :: "real list"
  sc_y :: "fl list"
  sc_c :: "real list"

definition np_unique :: "fl list \<Rightarrow> fl list" where
  \<comment> \<open>the sorted distinct values, a NaN last\<close>
  "np_unique a = map Fin (sort (remdups (dropna a))) @ (if NaN \<in> set a then [NaN] else [])"

definition linspace01 :: "nat \<Rightarrow> real list" where
  \<comment> \<open>\<open>np.linspace(0, 1, k)\<close>\<close>
  "linspace01 k = map (\<lambda>i. if k = 1 then 0 else real i / real (k - 1)) [0..<k]"

definition lookup_color :: "(fl \<times> real) list \<Rightarrow> fl \<Rightarrow> exn + real" where
  \<comment> \<open>\<open>duration_color_map[d]\<close>: a NaN equals no key\<close>
  "lookup_color m d =
     (case d of NaN \<Rightarrow> Inl KeyError
      | Fin x \<Rightarrow> (case map_of m (Fin x) of None \<Rightarrow> Inl KeyError | Some c \<Rightarrow> Inr c))"

definition jittered_scatter ::
  "'g np_random \<Rightarrow> 'g \<Rightarrow> fl list \<Rightarrow> 'g \<times> (exn + scatter_call)" where
  \<comment> \<open>from the generator state at line 92 and the column: the state afterwards, and the
      arguments of \<open>ax.scatter\<close> or the exception raised before it; a colour is kept as
      its position on the colormap\<close>
  "jittered_scatter rng g col =
     (let g1 = seed_state rng 42;
          jitter_strength = 15 / 1000;
          (x_jitter, g2) = normal_draw rng g1 1 jitter_strength (length col);
          durations = col;
          colors = linspace01 (length (np_unique durations));
          duration_color_map = zip (np_unique durations) colors
      in (case sequence_exn (map (lookup_color duration_color_map) durations) of
            Inl e \<Rightarrow> (g2, Inl e)
          | Inr point_colors \<Rightarrow>
              if length x_jitter \<noteq> length durations then (g2, Inl ValueError)
              else (g2, Inr \<lparr>sc_x = x_jitter, sc_y = durations, sc_c = point_colors\<rparr>)))"

subsection \<open>A table of four rows and a generator\<close>

definition ex_durations :: "fl list" where
  "ex_durations = [Fin 10, Fin 10, Fin 20, Fin 40]"

definition ex_rng :: "nat np_random" where
  \<comment> \<open>a generator whose state is a counter\<close>
  "ex_rng = \<lparr>seed_state = (\<lambda>n. n),
             normal_draw = (\<lambda>g loc scale n.
               (map (\<lambda>i. loc + scale * (real ((g + i) mod 3) - 1)) [0..<n], g + n))\<rparr>"

subsection \<open>The one-sample significance test\<close>

text \<open>
  The script calls \<open>scipy.stats.ttest_1samp\<close> (line 60), which is not part of the
  repository. The definitions of this subsection model it as the specification describes
  it, a one-sample significance test comparing the sample mean against a fixed reference
  value: Student's test, two-sided. The survival function of the \<open>t\<close> distribution is a
  parameter \<open>sf df x\<close>. A statistic is a float that can be infinite: a sample without
  variance divides by zero.
\<close>

datatype tval = TNaN | TInf bool | TFin real

definition tneg :: "tval \<Rightarrow> tval" where
  "tneg t = (case t of TNaN \<Rightarrow> TNaN | TInf up \<Rightarrow> TInf (\<not> up) | TFin x \<Rightarrow> TFin (- x))"

definition sample_mean :: "real list \<Rightarrow> real" where
  \<comment> \<open>Modelled from the spec: the sample mean\<close>
  "sample_mean xs = sum_list xs / real (length xs)"

definition sample_var :: "real list \<Rightarrow> real" where
  \<comment> \<open>Modelled from the spec: the unbiased sample variance (\<open>ddof = 1\<close>)\<close>
  "sample_var xs = (\<Sum>x\<leftarrow>xs. (x - sample_mean xs)\<^sup>2) / real (length xs - 1)"

definition ttest_1samp :: "(nat \<Rightarrow> real \<Rightarrow> real) \<Rightarrow> fl list \<Rightarrow> real \<Rightarrow> tval \<times> fl" where
  \<comment> \<open>Modelled from the spec: \<open>ttest_1samp(a, popmean)\<close> returns the statistic
      \<open>(mean - popmean) / sqrt (var / n)\<close> and the two-sided p-value \<open>2 * sf(|t|)\<close> with
      \<open>n - 1\<close> degrees of freedom; a missing value, or fewer than two values, gives
      \<open>nan\<close> for both\<close>
  "ttest_1samp sf a popmean =
     (if NaN \<in> set a \<or> length a < 2 then (TNaN, NaN)
      else
        let xs = dropna a;
            n = length xs;
            d = sample_mean xs - popmean;
            denom = sqrt (sample_var xs / real n)
        in if denom = 0 then (if d = 0 then (TNaN, NaN) else (TInf (0 < d), Fin 0))
           else (TFin (d / denom), Fin (2 * sf (n - 1) \<bar>d / denom\<bar>)))"

definition tag_duration :: real where
  \<comment> \<open>line 59\<close>
  "tag_duration = 42"

definition float_eq :: "fl \<Rightarrow> fl \<Rightarrow> bool" where
  \<comment> \<open>\<open>==\<close> on floats: \<open>nan\<close> equals nothing\<close>
  "float_eq a b = (case (a, b) of (Fin x, Fin y) \<Rightarrow> x = y | _ \<Rightarrow> False)"

definition opposite_sign :: "tval \<Rightarrow> tval \<Rightarrow> bool" where
  \<comment> \<open>\<open>t' == -t\<close> on floats: \<open>nan\<close> has no sign and equals nothing\<close>
  "opposite_sign t t' =
     (case (t, t') of
        (TFin x, TFin y) \<Rightarrow> y = - x
      | (TInf up, TInf up') \<Rightarrow> up' = (\<not> up)
      | _ \<Rightarrow> False)"

definition ex_sf :: "nat \<Rightarrow> real \<Rightarrow> real" where
  \<comment> \<open>a decreasing function with \<open>sf 0 = 1 / 2\<close>, in the place of the survival function\<close>
  "ex_sf df x = 1 / (2 + 2 * x)"

section \<open>frontogenesis_tendency_comparison\<close>

subsection \<open>Fields, the libraries and the outcome of a run\<close>

text \<open>
  A field over time is the list of its grids, one per time step, beside the time
  coordinate (seconds since the epoch). The result of a selection or of \<open>squeeze\<close> is a
  single grid or still a list of grids.
\<close>

datatype ndfield = Mat grid | Cube "grid list"

record front_input =
  in_time :: "int list"
  in_theta :: "grid list"
  in_u_wind :: "grid list"
  in_v_wind :: "grid list"
  in_lons :: grid
  in_lats :: grid
  in_dx :: grid
  in_dy :: grid

record front_env =
  load_fields :: "exn + front_input"
  mp_frontogenesis :: "grid list \<Rightarrow> grid list \<Rightarrow> grid list \<Rightarrow> grid \<Rightarrow> grid \<Rightarrow> exn + grid list"
  mp_geospatial_gradient :: "grid list \<Rightarrow> grid \<Rightarrow> grid \<Rightarrow> exn + grid list \<times> grid list"
  fe_makedirs :: "string \<Rightarrow> exn option"
  fe_render :: "grid \<Rightarrow> grid \<Rightarrow> grid \<Rightarrow> grid \<Rightarrow> exn option"
  fe_savefig :: "int \<Rightarrow> exn option"



definition TARGET_TIME :: int where
  \<comment> \<open>\<open>np.datetime64("2006-06-09T01:00:00")\<close>\<close>
  "TARGET_TIME = 1149814800"


subsection \<open>The tendency of the gradient magnitude (lines 131-154)\<close>

definition grid_map2 :: "(fl \<Rightarrow> fl \<Rightarrow> fl) \<Rightarrow> grid \<Rightarrow> grid \<Rightarrow> grid" where
  \<comment> \<open>an elementwise operation on two grids of one shape\<close>
  "grid_map2 f a b = map (\<lambda>(r, s). map (\<lambda>(x, y). f x y) (zip r s)) (zip a b)"

definition gradient_magnitude :: "front_env \<Rightarrow> front_input \<Rightarrow> exn + grid list" where
  \<comment> \<open>lines 131-136\<close>
  "gradient_magnitude env inp =
     (case mp_geospatial_gradient env (in_theta inp) (in_dx inp) (in_dy inp) of
        Inl e \<Rightarrow> Inl e
      | Inr (dtheta_dx, dtheta_dy) \<Rightarrow> zip_bcast (grid_op2 hypot) dtheta_dx dtheta_dy)"

definition mask_select :: "bool list \<Rightarrow> 'a list \<Rightarrow> exn + 'a list" where
  \<comment> \<open>\<open>a[mask, :, :]\<close> with a boolean mask along the first axis\<close>
  "mask_select msk a =
     (if length msk \<noteq> length a then Inl IndexError
      else Inr (map snd (filter fst (zip msk a))))"

definition squeeze :: "grid list \<Rightarrow> ndfield" where
  \<comment> \<open>\<open>.squeeze()\<close> on the time axis; the grid axes are longer than one\<close>
  "squeeze a = (case a of [g] \<Rightarrow> Mat g | _ \<Rightarrow> Cube a)"

definition gradient_tendency :: "front_env \<Rightarrow> front_input \<Rightarrow> int \<Rightarrow> exn + ndfield" where
  \<comment> \<open>lines 131-154, for a target time in seconds\<close>
  "gradient_tendency env inp target =
     (case gradient_magnitude env inp of Inl e \<Rightarrow> Inl e | Inr magnitude \<Rightarrow>
      let time_before = target - 3600;
          time_after = target + 3600
      in
      case mask_select (map (\<lambda>t. t = time_after) (in_time inp)) magnitude of
        Inl e \<Rightarrow> Inl e | Inr at_after \<Rightarrow>
      case mask_select (map (\<lambda>t. t = time_before) (in_time inp)) magnitude of
        Inl e \<Rightarrow> Inl e | Inr at_before \<Rightarrow>
      case zip_bcast (grid_op2 (fl_op2 (\<lambda>a b. a - b))) at_after at_before of
        Inl e \<Rightarrow> Inl e | Inr gradient_change \<Rightarrow>
      let time_interval = real_of_int (time_after - time_before)
      in Inr (squeeze (map (map (map (\<lambda>x. fl_op2 (\<lambda>a b. a / b) x (Fin time_interval))))
                gradient_change)))"

subsection \<open>Selection at the target time, statistics and the figure (lines 167-255)\<close>










subsection \<open>Three hourly time steps on a 2 x 2 grid\<close>

definition ex_front_input :: "int list \<Rightarrow> front_input" where
  \<comment> \<open>three fields, with the given time coordinate\<close>
  "ex_front_input time_coord =
     \<lparr>in_time = time_coord,
      in_theta = [[[Fin 0, Fin 1], [Fin 1, Fin 0]], [[Fin 1, Fin 1], [Fin 1, Fin 1]],
                  [[Fin 2, Fin 1], [Fin 0, Fin 2]]],
      in_u_wind = [[[Fin 5, Fin 5], [Fin 5, Fin 5]], [[Fin 5, Fin 5], [Fin 5, Fin 5]],
                   [[Fin 5, Fin 5], [Fin 5, Fin 5]]],
      in_v_wind = [[[Fin 0, Fin 0], [Fin 0, Fin 0]], [[Fin 0, Fin 0], [Fin 0, Fin 0]],
                   [[Fin 0, Fin 0], [Fin 0, Fin 0]]],
      in_lons = [[Fin 120, Fin 121], [Fin 120, Fin 121]],
      in_lats = [[Fin 23, Fin 23], [Fin 24, Fin 24]],
      in_dx = [[Fin 1000], [Fin 1000]],
      in_dy = [[Fin 1000, Fin 1000]]\<rparr>"

definition ex_front_env :: "int list \<Rightarrow> front_env" where
  \<comment> \<open>operators that return the field itself as the zonal derivative and zero as the
      meridional one\<close>
  "ex_front_env time_coord =
     \<lparr>load_fields = Inr (ex_front_input time_coord),
      mp_frontogenesis = (\<lambda>theta u v dx dy. Inr theta),
      mp_geospatial_gradient = (\<lambda>theta dx dy. Inr (theta, map nan_where theta)),
      fe_makedirs = (\<lambda>p. None),
      fe_render = (\<lambda>lons lats f g. None),
      fe_savefig = (\<lambda>t. None)\<rparr>"

definition ex_dtheta_dx :: "grid list" where
  "ex_dtheta_dx =
     [[[Fin 3, Fin 0], [Fin 0, Fin 5]], [[Fin 1, Fin 1], [Fin 1, Fin 1]],
      [[Fin 6, Fin 8], [Fin 5, Fin 0]]]"

definition ex_dtheta_dy :: "grid list" where
  "ex_dtheta_dy =
     [[[Fin 4, Fin 0], [Fin 0, Fin 12]], [[Fin 0, Fin 0], [Fin 0, Fin 0]],
      [[Fin 8, Fin 6], [Fin 12, Fin 0]]]"

definition ex_gradient_env :: "int list \<Rightarrow> front_env" where
  \<comment> \<open>the same operators, with a gradient that has a zonal and a meridional part\<close>
  "ex_gradient_env time_coord =
     (ex_front_env time_coord)\<lparr>mp_geospatial_gradient :=
        (\<lambda>theta dx dy. Inr (ex_dtheta_dx, ex_dtheta_dy))\<rparr>"

section \<open>calc_WRF_ThetaE_Analysis: divergence and vorticity as finite differences\<close>

text \<open>
  The script calls MetPy's divergence and vorticity (lines 125-126), which are not part
  of the repository. The definitions of this section model them as the specification
  describes them, standard finite-difference operators parameterized by the grid
  spacing: three-point differences on an unevenly spaced grid, one-sided at the two ends
  of an axis.
\<close>

definition fl_neg :: "fl \<Rightarrow> fl" where
  "fl_neg x = (case x of NaN \<Rightarrow> NaN | Fin a \<Rightarrow> Fin (- a))"

definition neg_grid :: "grid \<Rightarrow> grid" where
  "neg_grid g = map (map fl_neg) g"

definition weighted3 :: "fl \<Rightarrow> fl \<Rightarrow> fl \<Rightarrow> fl \<Rightarrow> fl \<Rightarrow> fl \<Rightarrow> fl" where
  \<comment> \<open>Modelled from the spec: a finite difference is a weighted sum of three
      neighbouring field values\<close>
  "weighted3 w0 a w1 b w2 c =
     fl_op2 (\<lambda>x y. x + y)
       (fl_op2 (\<lambda>x y. x + y) (fl_op2 (\<lambda>x y. x * y) w0 a) (fl_op2 (\<lambda>x y. x * y) w1 b))
       (fl_op2 (\<lambda>x y. x * y) w2 c)"

datatype stencil = Left_edge | Interior | Right_edge

fun fd_weights :: "stencil \<Rightarrow> fl \<Rightarrow> fl \<Rightarrow> fl \<times> fl \<times> fl" where
  \<comment> \<open>Modelled from the spec: the weights of the three values, from the two spacings
      \<open>d0\<close> and \<open>d1\<close> between them\<close>
  "fd_weights Interior (Fin d0) (Fin d1) =
     (Fin (- d1 / ((d0 + d1) * d0)), Fin ((d1 - d0) / (d0 * d1)), Fin (d0 / ((d0 + d1) * d1)))"
| "fd_weights Left_edge (Fin d0) (Fin d1) =
     (Fin (- (2 * d0 + d1) / ((d0 + d1) * d0)), Fin ((d0 + d1) / (d0 * d1)),
      Fin (- d0 / ((d0 + d1) * d1)))"
| "fd_weights Right_edge (Fin d0) (Fin d1) =
     (Fin (d1 / ((d0 + d1) * d0)), Fin (- (d0 + d1) / (d0 * d1)),
      Fin ((d0 + 2 * d1) / ((d0 + d1) * d1)))"
| "fd_weights _ _ _ = (NaN, NaN, NaN)"

definition first_derivative :: "fl list \<Rightarrow> fl list \<Rightarrow> exn + fl list" where
  \<comment> \<open>Modelled from the spec: the derivative of the values \<open>f\<close> along one axis whose
      consecutive points are \<open>delta\<close> apart; an axis of fewer than three points raises\<close>
  "first_derivative f delta =
     (let n = length f in
      if n < 3 \<or> length delta \<noteq> n - 1 then Inl ValueError
      else Inr (map (\<lambda>i.
        if i = 0 then
          (case fd_weights Left_edge (delta ! 0) (delta ! 1) of
             (w0, w1, w2) \<Rightarrow> weighted3 w0 (f ! 0) w1 (f ! 1) w2 (f ! 2))
        else if i = n - 1 then
          (case fd_weights Right_edge (delta ! (n - 3)) (delta ! (n - 2)) of
             (w0, w1, w2) \<Rightarrow> weighted3 w0 (f ! (n - 3)) w1 (f ! (n - 2)) w2 (f ! (n - 1)))
        else
          (case fd_weights Interior (delta ! (i - 1)) (delta ! i) of
             (w0, w1, w2) \<Rightarrow> weighted3 w0 (f ! (i - 1)) w1 (f ! i) w2 (f ! (i + 1))))
        [0..<n]))"

definition derivative_x :: "grid \<Rightarrow> grid \<Rightarrow> exn + grid" where
  \<comment> \<open>Modelled from the spec: the derivative along each row, \<open>dx\<close> of shape (ny, nx - 1)\<close>
  "derivative_x f dx =
     (if length f \<noteq> length dx then Inl ValueError
      else sequence_exn (map (\<lambda>(r, d). first_derivative r d) (zip f dx)))"

definition derivative_y :: "grid \<Rightarrow> grid \<Rightarrow> exn + grid" where
  \<comment> \<open>Modelled from the spec: the derivative along each column, \<open>dy\<close> of shape (ny - 1, nx)\<close>
  "derivative_y f dy =
     (case derivative_x (transpose f) (transpose dy) of
        Inl e \<Rightarrow> Inl e | Inr g \<Rightarrow> Inr (transpose g))"

definition add_fields :: "(fl \<Rightarrow> fl \<Rightarrow> fl) \<Rightarrow> grid \<Rightarrow> grid \<Rightarrow> exn + grid" where
  \<comment> \<open>Modelled from the spec: two derivative fields of one shape are combined element
      by element\<close>
  "add_fields f a b =
     (if map length a \<noteq> map length b then Inl ValueError else Inr (grid_map2 f a b))"

definition fd_divergence :: "grid \<Rightarrow> grid \<Rightarrow> grid \<Rightarrow> grid \<Rightarrow> exn + grid" where
  \<comment> \<open>Modelled from the spec: \<open>divergence(u, v, dx=dx, dy=dy)\<close>, the sum of the zonal
      derivative of \<open>u\<close> and the meridional derivative of \<open>v\<close>\<close>
  "fd_divergence u v dx dy =
     (case derivative_x u dx of Inl e \<Rightarrow> Inl e | Inr dudx \<Rightarrow>
      case derivative_y v dy of Inl e \<Rightarrow> Inl e | Inr dvdy \<Rightarrow>
        add_fields (fl_op2 (\<lambda>a b. a + b)) dudx dvdy)"

definition fd_vorticity :: "grid \<Rightarrow> grid \<Rightarrow> grid \<Rightarrow> grid \<Rightarrow> exn + grid" where
  \<comment> \<open>Modelled from the spec: \<open>vorticity(u, v, dx=dx, dy=dy)\<close>, the zonal derivative of
      \<open>v\<close> minus the meridional derivative of \<open>u\<close>\<close>
  "fd_vorticity u v dx dy =
     (case derivative_x v dx of Inl e \<Rightarrow> Inl e | Inr dvdx \<Rightarrow>
      case derivative_y u dy of Inl e \<Rightarrow> Inl e | Inr dudy \<Rightarrow>
        add_fields (fl_op2 (\<lambda>a b. a - b)) dvdx dudy)"

definition ex_u :: grid where
  \<comment> \<open>winds on a 3 x 3 grid, with an uneven zonal spacing\<close>
  "ex_u = [[Fin 1, Fin 2, Fin 4], [Fin 0, Fin 3, Fin 3], [Fin 2, Fin 2, Fin 5]]"

definition ex_v :: grid where
  "ex_v = [[Fin 0, Fin 1, Fin 0], [Fin 2, Fin 1, Fin 4], [Fin 6, Fin 1, Fin 2]]"

definition ex_dx3 :: grid where
  "ex_dx3 = [[Fin 1, Fin 2], [Fin 1, Fin 2], [Fin 1, Fin 2]]"

definition ex_dy3 :: grid where
  "ex_dy3 = [[Fin 2, Fin 2, Fin 2], [Fin 2, Fin 2, Fin 2]]"

section \<open>Properties of calc_WRF_ThetaE_Analysis\<close>

subsection \<open>Level selection\<close>

lemma check_levels_fst:
  "fst (check_levels available LEVELS) = filter (\<lambda>l. l \<in> set available) LEVELS"
proof (cases "filter (\<lambda>level. level \<notin> set available) LEVELS = []")
  case True
  then have "\<forall>l \<in> set LEVELS. l \<in> set available"
    by (auto simp: filter_empty_conv)
  then have "filter (\<lambda>l. l \<in> set available) LEVELS = LEVELS"
    by (simp add: filter_id_conv)
  with True show ?thesis by (simp add: check_levels_def)
next
  case False
  then show ?thesis by (simp add: check_levels_def Let_def)
qed

lemma check_levels_present:
  "check_levels available (filter (\<lambda>l. l \<in> set available) LEVELS) =
     (filter (\<lambda>l. l \<in> set available) LEVELS, [])"
  by (simp add: check_levels_def)

subsection \<open>The loop keeps the six arrays under their names\<close>

lemma assign_slot_keys:
  "assign_slot arrs k m t l v = Inr arrs' \<Longrightarrow> map fst arrs' = map fst arrs"
  by (auto simp: assign_slot_def split: option.splits sum.splits)

lemma store_fields_keys:
  "store_fields arrs m t l fs = (arrs', r) \<Longrightarrow> map fst arrs' = map fst arrs"
proof (induction fs arbitrary: arrs)
  case Nil
  then show ?case by simp
next
  case (Cons kv fs)
  obtain k v where kv: "kv = (k, v)" by (cases kv)
  show ?case
  proof (cases "assign_slot arrs k m t l v")
    case (Inl e)
    with Cons.prems kv show ?thesis by simp
  next
    case (Inr arrs1)
    with Cons.prems kv have "store_fields arrs1 m t l fs = (arrs', r)" by simp
    then have "map fst arrs' = map fst arrs1" by (rule Cons.IH)
    with assign_slot_keys [OF Inr] show ?thesis by simp
  qed
qed

lemma try_slice_keys:
  "try_slice env ds_eth ds_wind dx dy arrs mi m ti t li l = (arrs', r) \<Longrightarrow>
   map fst arrs' = map fst arrs"
  by (auto simp: try_slice_def split: sum.splits dest: store_fields_keys)

lemma level_step_arrays:
  "arrays (level_step env ds_eth ds_wind dx dy mi m ti t (li, l) st) =
   fst (try_slice env ds_eth ds_wind dx dy (arrays st) mi m ti t li l)"
proof -
  obtain arrs' r where ts:
    "try_slice env ds_eth ds_wind dx dy (arrays st) mi m ti t li l = (arrs', r)"
    by (cases "try_slice env ds_eth ds_wind dx dy (arrays st) mi m ti t li l")
  show ?thesis by (cases r) (simp_all add: level_step_def ts)
qed

lemma level_step_keys:
  "map fst (arrays (level_step env ds_eth ds_wind dx dy mi m ti t il st)) = map fst (arrays st)"
proof -
  obtain li l where il: "il = (li, l)" by (cases il)
  obtain arrs' r where ts:
    "try_slice env ds_eth ds_wind dx dy (arrays st) mi m ti t li l = (arrs', r)"
    by (cases "try_slice env ds_eth ds_wind dx dy (arrays st) mi m ti t li l")
  from try_slice_keys [OF ts] show ?thesis
    by (simp add: il level_step_arrays ts)
qed

lemma fold_keys:
  assumes "\<And>x st. map fst (arrays (f x st)) = map fst (arrays st)"
  shows "map fst (arrays (fold f xs st)) = map fst (arrays st)"
  using assms by (induction xs arbitrary: st) simp_all

lemma time_step_keys:
  "map fst (arrays (time_step env ds_eth ds_wind dx dy LEVELS mi m it st)) = map fst (arrays st)"
proof -
  obtain ti t where it: "it = (ti, t)" by (cases it)
  show ?thesis unfolding it time_step_def prod.case
    using level_step_keys by (rule fold_keys)
qed

lemma member_step_keys:
  "map fst (arrays (member_step env ds_eth ds_wind dx dy LEVELS ts im st)) = map fst (arrays st)"
proof -
  obtain mi m where im: "im = (mi, m)" by (cases im)
  show ?thesis unfolding im member_step_def prod.case
    using time_step_keys by (rule fold_keys)
qed

lemma triple_loop_keys:
  "map fst (arrays (triple_loop env ds_eth ds_wind dx dy ms ts LEVELS st)) = map fst (arrays st)"
  unfolding triple_loop_def using member_step_keys by (rule fold_keys)

lemma run_loop_keys:
  "map fst (arrays (run_loop env ds_eth ds_wind dx dy LEVELS con)) = var_names"
proof -
  obtain ny nx where sh: "shape2 (ds_XLAT ds_eth) = (ny, nx)" by (cases "shape2 (ds_XLAT ds_eth)")
  show ?thesis
    unfolding run_loop_def Let_def sh prod.case triple_loop_keys
    by (simp add: init_output_arrays_def comp_def)
qed

subsection \<open>The arrays do not depend on the console\<close>

lemma fold_arrays_cong:
  assumes step: "\<And>x s s'. arrays s = arrays s' \<Longrightarrow> arrays (f x s) = arrays (f x s')"
    and eq: "arrays s = arrays s'"
  shows "arrays (fold f xs s) = arrays (fold f xs s')"
  using eq
proof (induction xs arbitrary: s s')
  case Nil
  then show ?case by simp
next
  case (Cons x xs)
  have "arrays (f x s) = arrays (f x s')" using Cons.prems by (rule step)
  then have "arrays (fold f xs (f x s)) = arrays (fold f xs (f x s'))" by (rule Cons.IH)
  then show ?case by simp
qed

lemma level_step_cong:
  assumes "arrays s = arrays s'"
  shows "arrays (level_step env ds_eth ds_wind dx dy mi m ti t il s) =
         arrays (level_step env ds_eth ds_wind dx dy mi m ti t il s')"
proof -
  obtain li l where il: "il = (li, l)" by (cases il)
  show ?thesis unfolding il level_step_arrays assms ..
qed

lemma time_step_cong:
  assumes "arrays s = arrays s'"
  shows "arrays (time_step env ds_eth ds_wind dx dy LEVELS mi m it s) =
         arrays (time_step env ds_eth ds_wind dx dy LEVELS mi m it s')"
proof -
  obtain ti t where it: "it = (ti, t)" by (cases it)
  have "arrays (fold (level_step env ds_eth ds_wind dx dy mi m ti t) (enumerate 0 LEVELS) s) =
        arrays (fold (level_step env ds_eth ds_wind dx dy mi m ti t) (enumerate 0 LEVELS) s')"
    using level_step_cong assms by (rule fold_arrays_cong)
  then show ?thesis by (simp add: it time_step_def)
qed

lemma member_step_cong:
  assumes "arrays s = arrays s'"
  shows "arrays (member_step env ds_eth ds_wind dx dy LEVELS ts im s) =
         arrays (member_step env ds_eth ds_wind dx dy LEVELS ts im s')"
proof -
  obtain mi m where im: "im = (mi, m)" by (cases im)
  have "arrays (fold (time_step env ds_eth ds_wind dx dy LEVELS mi m) (enumerate 0 ts) s) =
        arrays (fold (time_step env ds_eth ds_wind dx dy LEVELS mi m) (enumerate 0 ts) s')"
    using time_step_cong assms by (rule fold_arrays_cong)
  then show ?thesis by (simp add: im member_step_def)
qed

lemma triple_loop_cong:
  assumes "arrays s = arrays s'"
  shows "arrays (triple_loop env ds_eth ds_wind dx dy ms ts LEVELS s) =
         arrays (triple_loop env ds_eth ds_wind dx dy ms ts LEVELS s')"
  unfolding triple_loop_def using member_step_cong assms by (rule fold_arrays_cong)

lemma run_loop_console_irrelevant:
  "arrays (run_loop env ds_eth ds_wind dx dy LEVELS con) =
   arrays (run_loop env ds_eth ds_wind dx dy LEVELS con')"
proof -
  obtain ny nx where sh: "shape2 (ds_XLAT ds_eth) = (ny, nx)" by (cases "shape2 (ds_XLAT ds_eth)")
  show ?thesis
    unfolding run_loop_def Let_def sh prod.case
    by (rule triple_loop_cong) simp
qed

subsection \<open>Assembly and serialization\<close>

lemma build_output_ds_coords:
  "build_output_ds env IN members ts LEVELS lats lons arrs = Inr ds \<Longrightarrow>
   coord_level ds = LEVELS \<and> coord_member ds = members \<and> coord_Time ds = ts"
  by (auto simp: build_output_ds_def split: sum.splits)

lemma build_output_ds_ok:
  assumes "map fst arrs = var_names"
  shows "\<exists>ds. build_output_ds env IN members ts LEVELS lats lons arrs = Inr ds \<and>
           map fst (data_vars ds) = var_names \<and> map (data \<circ> snd) (data_vars ds) = map snd arrs"
proof -
  from assms obtain a1 a2 a3 a4 a5 a6 where
    "arrs = [(''eth'', a1), (''dtedx'', a2), (''dtedy'', a3), (''absthe'', a4),
             (''divg'', a5), (''vort'', a6)]"
    by (auto simp: var_names_def map_eq_Cons_conv)
  then show ?thesis
    by (simp add: build_output_ds_def var_configs_def var_names_def)
qed

lemma written_level_coord:
  assumes "(f, ds) \<in> set (fst (output_try_body env IN OUT members ts LEVELS lats lons arrs))"
  shows "coord_level ds = LEVELS"
  using assms build_output_ds_coords [of env IN members ts LEVELS lats lons arrs]
  by (auto simp: output_try_body_def split: sum.splits option.splits)

lemma write_output_written:
  "run_written (write_output env IN OUT members ts LEVELS lats lons arrs con) =
   fst (output_try_body env IN OUT members ts LEVELS lats lons arrs)"
  by (simp add: write_output_def split: prod.splits sum.splits)

lemma write_output_raised:
  "run_raised (write_output env IN OUT members ts LEVELS lats lons arrs con) =
   (case snd (output_try_body env IN OUT members ts LEVELS lats lons arrs) of
      Inl e \<Rightarrow> Some e | Inr sz \<Rightarrow> None)"
  by (simp add: write_output_def split: prod.splits sum.splits)

lemma process_reaches_output:
  assumes "open_dataset env (IN @ ''/eth.nc'') = Inr ds_eth"
    and "open_dataset env (IN @ ''/ua,va.nc'') = Inr ds_wind"
    and "ds_Time ds_eth \<noteq> []"
    and "lat_lon_grid_deltas env (ds_XLONG ds_eth) (ds_XLAT ds_eth) = Inr (dx, dy)"
    and "check_levels (ds_interp_level ds_eth) LEVELS = (LEVELS', warn)"
  shows "process_multiple_levels_iterative env IN OUT LEVELS =
     (let st = run_loop env ds_eth ds_wind dx dy LEVELS' warn
      in write_output env IN OUT (ds_member ds_eth) (ds_Time ds_eth) LEVELS'
           (ds_XLAT ds_eth) (ds_XLONG ds_eth) (arrays st)
           (console st @ stats_events (arrays st)))"
  using assms by (simp add: process_multiple_levels_iterative_def)

lemma output_try_body_ok:
  assumes "map fst arrs = var_names"
    and "\<And>ds. xr_assemble env ds = None"
    and "\<And>ds enc. to_netcdf env OUT ds enc = None"
    and "getsize env OUT = Inr sz"
  shows "\<exists>ds. output_try_body env IN OUT members ts LEVELS lats lons arrs = ([(OUT, ds)], Inr sz) \<and>
           build_output_ds env IN members ts LEVELS lats lons arrs = Inr ds"
proof -
  from build_output_ds_ok [OF assms(1)] obtain ds where
    "build_output_ds env IN members ts LEVELS lats lons arrs = Inr ds" by blast
  then show ?thesis by (simp add: output_try_body_def assms)
qed

lemma process_same_as_present:
  assumes "open_dataset env (IN @ ''/eth.nc'') = Inr ds_eth"
  shows "run_raised (process_multiple_levels_iterative env IN OUT LEVELS) =
         run_raised (process_multiple_levels_iterative env IN OUT
           (filter (\<lambda>level. level \<in> set (ds_interp_level ds_eth)) LEVELS)) \<and>
         run_written (process_multiple_levels_iterative env IN OUT LEVELS) =
         run_written (process_multiple_levels_iterative env IN OUT
           (filter (\<lambda>level. level \<in> set (ds_interp_level ds_eth)) LEVELS))"
proof -
  let ?present = "filter (\<lambda>level. level \<in> set (ds_interp_level ds_eth)) LEVELS"
  obtain warn where cl: "check_levels (ds_interp_level ds_eth) LEVELS = (?present, warn)"
    using check_levels_fst [of "ds_interp_level ds_eth" LEVELS]
    by (cases "check_levels (ds_interp_level ds_eth) LEVELS") simp
  have cl': "check_levels (ds_interp_level ds_eth) ?present = (?present, [])"
    by (rule check_levels_present)
  show ?thesis
  proof (cases "open_dataset env (IN @ ''/ua,va.nc'')")
    case (Inl e)
    with assms show ?thesis
      by (simp add: process_multiple_levels_iterative_def raised_early_def)
  next
    case wind: (Inr ds_wind)
    show ?thesis
    proof (cases "ds_Time ds_eth = []")
      case True
      with assms wind cl cl' show ?thesis
        by (simp add: process_multiple_levels_iterative_def raised_early_def)
    next
      case times: False
      show ?thesis
      proof (cases "lat_lon_grid_deltas env (ds_XLONG ds_eth) (ds_XLAT ds_eth)")
        case (Inl e)
        with assms wind cl cl' times show ?thesis
          by (simp add: process_multiple_levels_iterative_def raised_early_def)
      next
        case (Inr d)
        obtain dx dy where d: "d = (dx, dy)" by (cases d)
        note p1 = process_reaches_output [OF assms wind times Inr [unfolded d] cl]
        note p2 = process_reaches_output [OF assms wind times Inr [unfolded d] cl']
        have arr: "arrays (run_loop env ds_eth ds_wind dx dy ?present warn) =
                   arrays (run_loop env ds_eth ds_wind dx dy ?present [])"
          by (rule run_loop_console_irrelevant)
        show ?thesis
          unfolding p1 p2 Let_def write_output_raised write_output_written arr by simp
      qed
    qed
  qed
qed

lemma process_written_level_coord:
  assumes "open_dataset env (IN @ ''/eth.nc'') = Inr ds_eth"
    and "(f, ds) \<in> set (run_written (process_multiple_levels_iterative env IN OUT LEVELS))"
  shows "coord_level ds = filter (\<lambda>level. level \<in> set (ds_interp_level ds_eth)) LEVELS"
proof -
  let ?present = "filter (\<lambda>level. level \<in> set (ds_interp_level ds_eth)) LEVELS"
  obtain warn where cl: "check_levels (ds_interp_level ds_eth) LEVELS = (?present, warn)"
    using check_levels_fst [of "ds_interp_level ds_eth" LEVELS]
    by (cases "check_levels (ds_interp_level ds_eth) LEVELS") simp
  show ?thesis
  proof (cases "open_dataset env (IN @ ''/ua,va.nc'')")
    case (Inl e)
    with assms show ?thesis
      by (simp add: process_multiple_levels_iterative_def raised_early_def)
  next
    case wind: (Inr ds_wind)
    show ?thesis
    proof (cases "ds_Time ds_eth = []")
      case True
      with assms wind cl show ?thesis
        by (simp add: process_multiple_levels_iterative_def raised_early_def)
    next
      case times: False
      show ?thesis
      proof (cases "lat_lon_grid_deltas env (ds_XLONG ds_eth) (ds_XLAT ds_eth)")
        case (Inl e)
        with assms wind cl times show ?thesis
          by (simp add: process_multiple_levels_iterative_def raised_early_def)
      next
        case (Inr d)
        obtain dx dy where d: "d = (dx, dy)" by (cases d)
        note p1 = process_reaches_output [OF assms(1) wind times Inr [unfolded d] cl]
        from assms(2) show ?thesis
          unfolding p1 Let_def write_output_written by (rule written_level_coord)
      qed
    qed
  qed
qed

lemma check_levels_warning:
  assumes "filter (\<lambda>level. level \<notin> set available_levels) LEVELS \<noteq> []"
  shows "snd (check_levels available_levels LEVELS) =
     [Warning_missing_levels (filter (\<lambda>level. level \<notin> set available_levels) LEVELS),
      Processing_available_levels (filter (\<lambda>level. level \<in> set available_levels) LEVELS)]"
  using assms by (simp add: check_levels_def Let_def)

lemma ex_env_process_written:
  "\<exists>ds. run_written (process_multiple_levels_iterative (ex_env field None) IN OUT LEVELS) =
           [(OUT, ds)] \<and>
        run_raised (process_multiple_levels_iterative (ex_env field None) IN OUT LEVELS) = None"
proof -
  let ?env = "ex_env field None"
  obtain LEVELS' warn where cl:
    "check_levels (ds_interp_level (ex_ds field)) LEVELS = (LEVELS', warn)"
    by (cases "check_levels (ds_interp_level (ex_ds field)) LEVELS")
  have o1: "open_dataset ?env (IN @ ''/eth.nc'') = Inr (ex_ds field)"
    and o2: "open_dataset ?env (IN @ ''/ua,va.nc'') = Inr (ex_ds field)"
    by (simp_all add: ex_env_def)
  have t: "ds_Time (ex_ds field) \<noteq> []" by (simp add: ex_ds_def)
  have d: "lat_lon_grid_deltas ?env (ds_XLONG (ex_ds field)) (ds_XLAT (ex_ds field)) =
             Inr ([[Fin 1000], [Fin 1000]], [[Fin 1000, Fin 1000]])"
    by (simp add: ex_env_def)
  note p = process_reaches_output [OF o1 o2 t d cl]
  have "\<exists>ds. output_try_body ?env IN OUT (ds_member (ex_ds field)) (ds_Time (ex_ds field)) LEVELS'
          (ds_XLAT (ex_ds field)) (ds_XLONG (ex_ds field))
          (arrays (run_loop ?env (ex_ds field) (ex_ds field) [[Fin 1000], [Fin 1000]]
             [[Fin 1000, Fin 1000]] LEVELS' warn)) = ([(OUT, ds)], Inr 4096) \<and>
        build_output_ds ?env IN (ds_member (ex_ds field)) (ds_Time (ex_ds field)) LEVELS'
          (ds_XLAT (ex_ds field)) (ds_XLONG (ex_ds field))
          (arrays (run_loop ?env (ex_ds field) (ex_ds field) [[Fin 1000], [Fin 1000]]
             [[Fin 1000, Fin 1000]] LEVELS' warn)) = Inr ds"
    by (rule output_try_body_ok [OF run_loop_keys]) (simp_all add: ex_env_def)
  then show ?thesis
    unfolding p Let_def write_output_written write_output_raised by auto
qed

text \<open>
  Claim C2. The levels that are processed are exactly the requested levels that the input
  has, in the order of the request: the list handed to the loop is that list, a warning
  names the absent levels when there are any, the run raises and writes as a run that
  requests only the present levels does, and every written dataset has that list as its
  level coordinate.
\<close>

theorem processed_levels_are_the_present_requested_levels:
  "fst (check_levels available_levels LEVELS) =
     filter (\<lambda>level. level \<in> set available_levels) LEVELS \<and>
   (filter (\<lambda>level. level \<notin> set available_levels) LEVELS \<noteq> [] \<longrightarrow>
      snd (check_levels available_levels LEVELS) =
        [Warning_missing_levels (filter (\<lambda>level. level \<notin> set available_levels) LEVELS),
         Processing_available_levels (filter (\<lambda>level. level \<in> set available_levels) LEVELS)]) \<and>
   (open_dataset env (IN @ ''/eth.nc'') = Inr ds_eth \<longrightarrow>
      run_raised (process_multiple_levels_iterative env IN OUT LEVELS) =
        run_raised (process_multiple_levels_iterative env IN OUT
          (filter (\<lambda>level. level \<in> set (ds_interp_level ds_eth)) LEVELS)) \<and>
      run_written (process_multiple_levels_iterative env IN OUT LEVELS) =
        run_written (process_multiple_levels_iterative env IN OUT
          (filter (\<lambda>level. level \<in> set (ds_interp_level ds_eth)) LEVELS)) \<and>
      (\<forall>(f, ds) \<in> set (run_written (process_multiple_levels_iterative env IN OUT LEVELS)).
         coord_level ds = filter (\<lambda>level. level \<in> set (ds_interp_level ds_eth)) LEVELS))"
  using check_levels_fst [of available_levels LEVELS]
    check_levels_warning [of available_levels LEVELS]
    process_same_as_present [of env IN ds_eth OUT LEVELS]
    process_written_level_coord [of env IN ds_eth _ _ OUT LEVELS]
  by blast

theorem processed_levels_witness:
  "fst (check_levels [875, 850] [875, 850, 825]) = [875, 850] \<and>
   snd (check_levels [875, 850] [875, 850, 825]) =
     [Warning_missing_levels [825], Processing_available_levels [875, 850]] \<and>
   map (coord_level \<circ> snd)
     (run_written (process_multiple_levels_iterative (ex_env ex_field None) INPUT_DIR OUTPUT_FILE
        [875, 850, 825])) = [[875, 850]]"
proof -
  let ?env = "ex_env ex_field None"
  let ?r = "process_multiple_levels_iterative ?env INPUT_DIR OUTPUT_FILE [875, 850, 825]"
  have o: "open_dataset ?env (INPUT_DIR @ ''/eth.nc'') = Inr (ex_ds ex_field)"
    by (simp add: ex_env_def)
  have lv: "ds_interp_level (ex_ds ex_field) = [875, 850]" by (simp add: ex_ds_def)
  note inst = processed_levels_are_the_present_requested_levels
    [of "[875, 850]" "[875, 850, 825]" ?env INPUT_DIR "ex_ds ex_field" OUTPUT_FILE]
  from ex_env_process_written [of ex_field INPUT_DIR OUTPUT_FILE "[875, 850, 825]"]
  obtain ds where w: "run_written ?r = [(OUTPUT_FILE, ds)]" by blast
  from inst o have "\<forall>(f, ds) \<in> set (run_written ?r). coord_level ds = [875, 850]"
    by (simp add: lv)
  with w have "coord_level ds = [875, 850]" by simp
  with w inst show ?thesis by simp
qed

subsection \<open>Failure of the output block\<close>

lemma write_output_console:
  "run_console (write_output env IN OUT members ts LEVELS lats lons arrs con) =
   con @ [case snd (output_try_body env IN OUT members ts LEVELS lats lons arrs) of
            Inl e \<Rightarrow> Error_writing_output e | Inr sz \<Rightarrow> File_written sz]"
  by (simp add: write_output_def split: prod.splits sum.splits)

lemma main_exit_status:
  "snd (main env LEVEL) =
   (if makedirs env OUTPUT_DIR = None \<and>
       run_raised (process_multiple_levels_iterative env INPUT_DIR OUTPUT_FILE LEVEL) = None
    then 0 else 1)"
  by (simp add: main_def Let_def split: option.splits)

lemma output_try_body_raises:
  assumes "build_output_ds env IN members ts LEVELS lats lons arrs = Inr ds"
    and "xr_assemble env ds = Some e \<or>
         xr_assemble env ds = None \<and>
           (to_netcdf env OUT ds (map fst (data_vars ds)) = Some e \<or>
            to_netcdf env OUT ds (map fst (data_vars ds)) = None \<and> getsize env OUT = Inl e)"
  shows "snd (output_try_body env IN OUT members ts LEVELS lats lons arrs) = Inl e"
  using assms by (auto simp: output_try_body_def)

text \<open>
  Claim C9. When the run reaches the output block and the assembly of the dataset, its
  serialization to the output file or the size check after it raises an exception, the
  function prints the error as its last console line and ends with that same exception;
  the script then ends with exit status 1.
\<close>

theorem output_failure_is_logged_and_reraised:
  assumes "open_dataset env (IN @ ''/eth.nc'') = Inr ds_eth"
    and "open_dataset env (IN @ ''/ua,va.nc'') = Inr ds_wind"
    and "ds_Time ds_eth \<noteq> []"
    and "lat_lon_grid_deltas env (ds_XLONG ds_eth) (ds_XLAT ds_eth) = Inr (dx, dy)"
    and "check_levels (ds_interp_level ds_eth) LEVELS = (LEVELS', warn)"
    and "build_output_ds env IN (ds_member ds_eth) (ds_Time ds_eth) LEVELS' (ds_XLAT ds_eth)
           (ds_XLONG ds_eth) (arrays (run_loop env ds_eth ds_wind dx dy LEVELS' warn)) = Inr ds"
    and "xr_assemble env ds = Some e \<or>
         xr_assemble env ds = None \<and>
           (to_netcdf env OUT ds (map fst (data_vars ds)) = Some e \<or>
            to_netcdf env OUT ds (map fst (data_vars ds)) = None \<and> getsize env OUT = Inl e)"
  shows "run_raised (process_multiple_levels_iterative env IN OUT LEVELS) = Some e \<and>
         last (run_console (process_multiple_levels_iterative env IN OUT LEVELS)) =
           Error_writing_output e \<and>
         (IN = INPUT_DIR \<and> OUT = OUTPUT_FILE \<longrightarrow> snd (main env LEVELS) = 1)"
proof -
  note p = process_reaches_output [OF assms(1-5)]
  note b = output_try_body_raises [OF assms(6,7)]
  have r: "run_raised (process_multiple_levels_iterative env IN OUT LEVELS) = Some e"
    unfolding p Let_def write_output_raised b by simp
  have c: "last (run_console (process_multiple_levels_iterative env IN OUT LEVELS)) =
           Error_writing_output e"
    unfolding p Let_def write_output_console b by simp
  from r have "IN = INPUT_DIR \<and> OUT = OUTPUT_FILE \<longrightarrow> snd (main env LEVELS) = 1"
    by (auto simp: main_exit_status)
  with r c show ?thesis by blast
qed

theorem output_failure_witness:
  "run_raised (process_multiple_levels_iterative (ex_env ex_field (Some OSError)) INPUT_DIR
     OUTPUT_FILE [875, 850, 825]) = Some OSError \<and>
   last (run_console (process_multiple_levels_iterative (ex_env ex_field (Some OSError))
     INPUT_DIR OUTPUT_FILE [875, 850, 825])) = Error_writing_output OSError \<and>
   snd (main (ex_env ex_field (Some OSError)) [875, 850, 825]) = 1"
proof -
  let ?env = "ex_env ex_field (Some OSError)"
  let ?ds = "ex_ds ex_field"
  let ?dx = "[[Fin 1000], [Fin 1000]]" and ?dy = "[[Fin 1000, Fin 1000]]"
  let ?warn = "[Warning_missing_levels [825], Processing_available_levels [875, 850]]"
  have o1: "open_dataset ?env (INPUT_DIR @ ''/eth.nc'') = Inr ?ds"
    and o2: "open_dataset ?env (INPUT_DIR @ ''/ua,va.nc'') = Inr ?ds"
    by (simp_all add: ex_env_def)
  have t: "ds_Time ?ds \<noteq> []" by (simp add: ex_ds_def)
  have d: "lat_lon_grid_deltas ?env (ds_XLONG ?ds) (ds_XLAT ?ds) = Inr (?dx, ?dy)"
    by (simp add: ex_env_def)
  have cl: "check_levels (ds_interp_level ?ds) [875, 850, 825] = ([875, 850], ?warn)"
    by (simp add: check_levels_def ex_ds_def Let_def)
  from build_output_ds_ok [OF run_loop_keys] obtain ds where
    b: "build_output_ds ?env INPUT_DIR (ds_member ?ds) (ds_Time ?ds) [875, 850] (ds_XLAT ?ds)
          (ds_XLONG ?ds) (arrays (run_loop ?env ?ds ?ds ?dx ?dy [875, 850] ?warn)) = Inr ds"
    by blast
  have f: "xr_assemble ?env ds = Some OSError \<or>
         xr_assemble ?env ds = None \<and>
           (to_netcdf ?env OUTPUT_FILE ds (map fst (data_vars ds)) = Some OSError \<or>
            to_netcdf ?env OUTPUT_FILE ds (map fst (data_vars ds)) = None \<and>
            getsize ?env OUTPUT_FILE = Inl OSError)"
    by (simp add: ex_env_def)
  from output_failure_is_logged_and_reraised [OF o1 o2 t d cl b f]
  show ?thesis by simp
qed

subsection \<open>A request with no level of the input\<close>

lemma fold_no_change:
  assumes "\<And>x s. f x s = s"
  shows "fold f xs s = s"
  using assms by (induction xs arbitrary: s) simp_all

lemma time_step_no_levels:
  "time_step env ds_eth ds_wind dx dy [] mi m it st = st"
  by (cases it) (simp add: time_step_def)

lemma member_step_no_levels:
  "member_step env ds_eth ds_wind dx dy [] ts im st = st"
proof -
  obtain mi m where im: "im = (mi, m)" by (cases im)
  show ?thesis unfolding im member_step_def prod.case
    using time_step_no_levels by (rule fold_no_change)
qed

lemma run_loop_no_levels:
  "run_loop env ds_eth ds_wind dx dy [] con =
     \<lparr>arrays = init_output_arrays (length (ds_member ds_eth)) (length (ds_Time ds_eth)) 0
                 (fst (shape2 (ds_XLAT ds_eth))) (snd (shape2 (ds_XLAT ds_eth))),
      current_iteration = 0, console = con\<rparr>"
proof -
  obtain ny nx where sh: "shape2 (ds_XLAT ds_eth) = (ny, nx)" by (cases "shape2 (ds_XLAT ds_eth)")
  have "triple_loop env ds_eth ds_wind dx dy ms ts [] st = st" for ms ts st
    unfolding triple_loop_def using member_step_no_levels by (rule fold_no_change)
  then show ?thesis by (simp add: run_loop_def sh)
qed

lemma count_valid_np_full_nan: "count_valid (np_full_nan nm nt nl ny nx) = 0"
  by (auto simp: count_valid_def np_full_nan_def filter_empty_conv split: if_splits)

lemma stats_events_init:
  "stats_events (init_output_arrays nm nt nl ny nx) = map No_valid_data var_names"
  by (simp add: stats_events_def init_output_arrays_def count_valid_np_full_nan comp_def)

lemma check_levels_none_present:
  assumes "\<forall>level \<in> set LEVELS. level \<notin> set available_levels"
  shows "check_levels available_levels LEVELS =
     ([], if LEVELS = [] then []
          else [Warning_missing_levels LEVELS, Processing_available_levels []])"
proof -
  from assms have 1: "filter (\<lambda>level. level \<notin> set available_levels) LEVELS = LEVELS"
    by (simp add: filter_id_conv)
  from assms have 2: "filter (\<lambda>level. level \<in> set available_levels) LEVELS = []"
    by (simp add: filter_empty_conv)
  show ?thesis by (simp add: check_levels_def 1 2 Let_def)
qed


text \<open>
  Claim C10, as stated, fails: when the input has no time step, line 70 indexes the empty
  time coordinate. The function raises an \<open>IndexError\<close> after the warning about the
  missing levels and writes no file.
\<close>

theorem no_time_step_raises_before_the_loop:
  "700 \<notin> set (ds_interp_level ((ex_ds ex_field)\<lparr>ds_Time := []\<rparr>)) \<and>
   open_dataset ex_env_no_time (INPUT_DIR @ ''/eth.nc'') = Inr ((ex_ds ex_field)\<lparr>ds_Time := []\<rparr>) \<and>
   run_raised (process_multiple_levels_iterative ex_env_no_time INPUT_DIR OUTPUT_FILE [700]) =
     Some IndexError \<and>
   run_written (process_multiple_levels_iterative ex_env_no_time INPUT_DIR OUTPUT_FILE [700]) = [] \<and>
   run_console (process_multiple_levels_iterative ex_env_no_time INPUT_DIR OUTPUT_FILE [700]) =
     [Warning_missing_levels [700], Processing_available_levels []]"
  by (simp add: process_multiple_levels_iterative_def ex_env_no_time_def ex_env_def ex_ds_def
      check_levels_def Let_def raised_early_def)

text \<open>
  Claim C10, amended. When no requested level is in the input, and the input has a time step, the
  grid spacing is computed and the dataset is assembled and written without an exception,
  the function does not raise: the list of levels to process is empty, the loop body runs
  for no combination, and one file is written whose level coordinate is empty and whose
  six variables are arrays with a level dimension of size zero.
\<close>

theorem no_requested_level_present_still_writes:
  assumes "open_dataset env (IN @ ''/eth.nc'') = Inr ds_eth"
    and "open_dataset env (IN @ ''/ua,va.nc'') = Inr ds_wind"
    and "ds_Time ds_eth \<noteq> []"
    and "lat_lon_grid_deltas env (ds_XLONG ds_eth) (ds_XLAT ds_eth) = Inr (dx, dy)"
    and "\<forall>level \<in> set LEVELS. level \<notin> set (ds_interp_level ds_eth)"
    and "\<And>ds. xr_assemble env ds = None"
    and "\<And>ds enc. to_netcdf env OUT ds enc = None"
    and "getsize env OUT = Inr sz"
  shows "\<exists>ds warn.
     check_levels (ds_interp_level ds_eth) LEVELS = ([], warn) \<and>
     current_iteration (run_loop env ds_eth ds_wind dx dy [] warn) = 0 \<and>
     run_raised (process_multiple_levels_iterative env IN OUT LEVELS) = None \<and>
     run_written (process_multiple_levels_iterative env IN OUT LEVELS) = [(OUT, ds)] \<and>
     run_console (process_multiple_levels_iterative env IN OUT LEVELS) =
       warn @ map No_valid_data var_names @ [File_written sz] \<and>
     coord_level ds = [] \<and>
     map fst (data_vars ds) = var_names \<and>
     list_all (\<lambda>(k, v). data v =
         np_full_nan (length (ds_member ds_eth)) (length (ds_Time ds_eth)) 0
           (fst (shape2 (ds_XLAT ds_eth))) (snd (shape2 (ds_XLAT ds_eth))))
       (data_vars ds)"
proof -
  let ?warn = "if LEVELS = [] then []
               else [Warning_missing_levels LEVELS, Processing_available_levels []]"
  let ?init = "init_output_arrays (length (ds_member ds_eth)) (length (ds_Time ds_eth)) 0
                 (fst (shape2 (ds_XLAT ds_eth))) (snd (shape2 (ds_XLAT ds_eth)))"
  have cl: "check_levels (ds_interp_level ds_eth) LEVELS = ([], ?warn)"
    using assms(5) by (rule check_levels_none_present)
  note p = process_reaches_output [OF assms(1-4) cl]
  have keys: "map fst ?init = var_names"
    by (simp add: init_output_arrays_def comp_def)
  from output_try_body_ok [OF keys assms(6,7,8)] obtain ds where
    body: "output_try_body env IN OUT (ds_member ds_eth) (ds_Time ds_eth) []
             (ds_XLAT ds_eth) (ds_XLONG ds_eth) ?init = ([(OUT, ds)], Inr sz)"
    and b: "build_output_ds env IN (ds_member ds_eth) (ds_Time ds_eth) []
             (ds_XLAT ds_eth) (ds_XLONG ds_eth) ?init = Inr ds"
    by blast
  from build_output_ds_ok [OF keys, of env IN "ds_member ds_eth" "ds_Time ds_eth" "[]"
      "ds_XLAT ds_eth" "ds_XLONG ds_eth"] b
  have vars: "map fst (data_vars ds) = var_names"
    and dat: "map (data \<circ> snd) (data_vars ds) = map snd ?init"
    by simp_all
  have "list_all (\<lambda>a. a = np_full_nan (length (ds_member ds_eth)) (length (ds_Time ds_eth)) 0
           (fst (shape2 (ds_XLAT ds_eth))) (snd (shape2 (ds_XLAT ds_eth))))
         (map (data \<circ> snd) (data_vars ds))"
    unfolding dat by (simp add: init_output_arrays_def list_all_iff)
  then have all: "list_all (\<lambda>(k, v). data v =
         np_full_nan (length (ds_member ds_eth)) (length (ds_Time ds_eth)) 0
           (fst (shape2 (ds_XLAT ds_eth))) (snd (shape2 (ds_XLAT ds_eth))))
       (data_vars ds)"
    by (simp add: list_all_iff split_beta)
  have lv: "coord_level ds = []"
    using build_output_ds_coords [OF b] by simp
  have r: "run_raised (process_multiple_levels_iterative env IN OUT LEVELS) = None"
    unfolding p Let_def run_loop_no_levels write_output_raised by (simp add: body)
  have w: "run_written (process_multiple_levels_iterative env IN OUT LEVELS) = [(OUT, ds)]"
    unfolding p Let_def run_loop_no_levels write_output_written by (simp add: body)
  have c: "run_console (process_multiple_levels_iterative env IN OUT LEVELS) =
       ?warn @ map No_valid_data var_names @ [File_written sz]"
    unfolding p Let_def run_loop_no_levels write_output_console
    by (simp add: body stats_events_init)
  have it: "current_iteration (run_loop env ds_eth ds_wind dx dy [] ?warn) = 0"
    unfolding run_loop_no_levels by simp
  from cl it r w c lv vars all show ?thesis by blast
qed

theorem no_requested_level_present_witness:
  "\<exists>ds. run_raised (process_multiple_levels_iterative (ex_env ex_field None) INPUT_DIR
            OUTPUT_FILE [700, 500]) = None \<and>
        run_written (process_multiple_levels_iterative (ex_env ex_field None) INPUT_DIR
            OUTPUT_FILE [700, 500]) = [(OUTPUT_FILE, ds)] \<and>
        run_console (process_multiple_levels_iterative (ex_env ex_field None) INPUT_DIR
            OUTPUT_FILE [700, 500]) =
          [Warning_missing_levels [700, 500], Processing_available_levels [],
           No_valid_data ''eth'', No_valid_data ''dtedx'', No_valid_data ''dtedy'',
           No_valid_data ''absthe'', No_valid_data ''divg'', No_valid_data ''vort'',
           File_written 4096] \<and>
        coord_level ds = [] \<and>
        map (shape \<circ> data \<circ> snd) (data_vars ds) = replicate 6 (1, 1, 0, 2, 2)"
proof -
  let ?env = "ex_env ex_field None"
  let ?ds = "ex_ds ex_field"
  let ?dx = "[[Fin 1000], [Fin 1000]]" and ?dy = "[[Fin 1000, Fin 1000]]"
  have o1: "open_dataset ?env (INPUT_DIR @ ''/eth.nc'') = Inr ?ds"
    and o2: "open_dataset ?env (INPUT_DIR @ ''/ua,va.nc'') = Inr ?ds"
    by (simp_all add: ex_env_def)
  have t: "ds_Time ?ds \<noteq> []" by (simp add: ex_ds_def)
  have d: "lat_lon_grid_deltas ?env (ds_XLONG ?ds) (ds_XLAT ?ds) = Inr (?dx, ?dy)"
    by (simp add: ex_env_def)
  have none: "\<forall>level \<in> set [700, 500]. level \<notin> set (ds_interp_level ?ds)"
    by (simp add: ex_ds_def)
  have a: "\<And>ds. xr_assemble ?env ds = None"
    and n: "\<And>ds enc. to_netcdf ?env OUTPUT_FILE ds enc = None"
    and g: "getsize ?env OUTPUT_FILE = Inr 4096"
    by (simp_all add: ex_env_def)
  from no_requested_level_present_still_writes [OF o1 o2 t d none a n g]
  obtain ds warn where
    cl: "check_levels (ds_interp_level ?ds) [700, 500] = ([], warn)"
    and r: "run_raised (process_multiple_levels_iterative ?env INPUT_DIR OUTPUT_FILE [700, 500]) = None"
    and w: "run_written (process_multiple_levels_iterative ?env INPUT_DIR OUTPUT_FILE [700, 500]) =
            [(OUTPUT_FILE, ds)]"
    and c: "run_console (process_multiple_levels_iterative ?env INPUT_DIR OUTPUT_FILE [700, 500]) =
            warn @ map No_valid_data var_names @ [File_written 4096]"
    and lv: "coord_level ds = []"
    and vars: "map fst (data_vars ds) = var_names"
    and all: "list_all (\<lambda>(k, v). data v =
         np_full_nan (length (ds_member ?ds)) (length (ds_Time ?ds)) 0
           (fst (shape2 (ds_XLAT ?ds))) (snd (shape2 (ds_XLAT ?ds))))
       (data_vars ds)"
    by blast
  from cl have warn: "warn = [Warning_missing_levels [700, 500], Processing_available_levels []]"
    by (simp add: check_levels_def ex_ds_def Let_def)
  from vars have len: "length (data_vars ds) = 6"
    using length_map [of fst "data_vars ds"] by (simp add: var_names_def)
  from all have "map (shape \<circ> data \<circ> snd) (data_vars ds) =
       replicate (length (data_vars ds)) (1, 1, 0, 2, 2)"
    by (induction "data_vars ds" arbitrary: ds)
       (auto simp: np_full_nan_def ex_ds_def shape2_def split_beta map_replicate_const
             list_all_iff intro!: replicate_eqI)
  with len have sh: "map (shape \<circ> data \<circ> snd) (data_vars ds) = replicate 6 (1, 1, 0, 2, 2)"
    by simp
  from r w c lv sh show ?thesis
    by (auto simp: warn var_names_def)
qed

subsection \<open>Broadcasting of fields that have the grid's shape\<close>

lemma sequence_exn_all_Inr:
  assumes "\<forall>x \<in> set xs. f x = Inr (g x)"
  shows "sequence_exn (map f xs) = Inr (map g xs)"
  using assms by (induction xs) simp_all

lemma broadcast_to_has_shape:
  assumes "has_shape ny nx g"
  shows "broadcast_to ny nx g = Inr g"
proof -
  from assms have len: "length g = ny" and rows: "\<forall>r \<in> set g. length r = nx"
    by (simp_all add: has_shape_def list_all_iff)
  from rows have "\<forall>r \<in> set g. stretch_to nx r = Inr (id r)"
    by (simp add: stretch_to_def)
  then have "sequence_exn (map (stretch_to nx) g) = Inr (map id g)"
    by (rule sequence_exn_all_Inr)
  with len show ?thesis by (simp add: broadcast_to_def stretch_to_def)
qed

lemma zip_bcast_same_length:
  assumes "length xs = length ys"
    and "\<forall>(x, y) \<in> set (zip xs ys). f x y = Inr (g x y)"
  shows "zip_bcast f xs ys = Inr (map (\<lambda>(x, y). g x y) (zip xs ys))"
proof -
  from assms(2) have "\<forall>p \<in> set (zip xs ys). (\<lambda>(x, y). f x y) p = Inr ((\<lambda>(x, y). g x y) p)"
    by auto
  then have "sequence_exn (map (\<lambda>(x, y). f x y) (zip xs ys)) =
             Inr (map (\<lambda>(x, y). g x y) (zip xs ys))"
    by (rule sequence_exn_all_Inr)
  with assms(1) show ?thesis by (simp add: zip_bcast_def bcast_len_def stretch_def)
qed

lemma grid_op2_has_shape:
  assumes "has_shape ny nx a" and "has_shape ny nx b"
  shows "\<exists>g. grid_op2 f a b = Inr g \<and> has_shape ny nx g"
proof -
  from assms have la: "length a = ny" and lb: "length b = ny"
    and ra: "\<forall>r \<in> set a. length r = nx" and rb: "\<forall>r \<in> set b. length r = nx"
    by (simp_all add: has_shape_def list_all_iff)
  have row: "zip_bcast (\<lambda>x y. Inr (f x y)) r s = Inr (map (\<lambda>(x, y). f x y) (zip r s))"
    if "(r, s) \<in> set (zip a b)" for r s
  proof -
    from that have "r \<in> set a" "s \<in> set b" by (auto dest: set_zip_leftD set_zip_rightD)
    with ra rb have "length r = length s" by simp
    then show ?thesis by (rule zip_bcast_same_length) simp
  qed
  have "zip_bcast (zip_bcast (\<lambda>x y. Inr (f x y))) a b =
        Inr (map (\<lambda>(r, s). map (\<lambda>(x, y). f x y) (zip r s)) (zip a b))"
    using la lb row by (intro zip_bcast_same_length) auto
  moreover have "has_shape ny nx (map (\<lambda>(r, s). map (\<lambda>(x, y). f x y) (zip r s)) (zip a b))"
  proof -
    have "length (map (\<lambda>(x, y). f x y) (zip r s)) = nx" if "(r, s) \<in> set (zip a b)" for r s
    proof -
      from that have "r \<in> set a" "s \<in> set b" by (auto dest: set_zip_leftD set_zip_rightD)
      with ra rb show ?thesis by simp
    qed
    with la lb show ?thesis by (auto simp: has_shape_def list_all_iff)
  qed
  ultimately show ?thesis by (auto simp: grid_op2_def)
qed

subsection \<open>Reading a slot after an assignment\<close>

lemma setitem_ok:
  assumes "wf_arr nm nt nl ny nx a" and "m < nm" and "t < nt" and "l < nl"
    and "broadcast_to ny nx v = Inr g"
  shows "\<exists>a'. setitem a m t l v = Inr a' \<and> wf_arr nm nt nl ny nx a' \<and>
           (\<forall>m' t' l'. getitem a' m' t' l' =
              (if m' = m \<and> t' = t \<and> l' = l then g else getitem a m' t' l'))"
proof -
  let ?a' = "a\<lparr>cells := (cells a)[m := (cells a ! m)[t := (cells a ! m ! t)[l := g]]]\<rparr>"
  from assms(1) have sh: "shape a = (nm, nt, nl, ny, nx)" and lm: "length (cells a) = nm"
    and lt: "\<And>i. i < nm \<Longrightarrow> length (cells a ! i) = nt"
    and ll: "\<And>i j. i < nm \<Longrightarrow> j < nt \<Longrightarrow> length (cells a ! i ! j) = nl"
    by (simp_all add: wf_arr_def)
  have set: "setitem a m t l v = Inr ?a'"
    using assms(2-5) sh by (simp add: setitem_def)
  have wf: "wf_arr nm nt nl ny nx ?a'"
    using sh lm lt ll assms(2-4) by (auto simp: wf_arr_def nth_list_update)
  have get: "getitem ?a' m' t' l' =
       (if m' = m \<and> t' = t \<and> l' = l then g else getitem a m' t' l')" for m' t' l'
  proof (cases "m' = m")
    case False
    then show ?thesis by (simp add: getitem_def)
  next
    case m: True
    have lm': "m < length (cells a)" using lm assms(2) by simp
    have lt': "t < length (cells a ! m)" using lt [OF assms(2)] assms(3) by simp
    have ll': "l < length (cells a ! m ! t)" using ll [OF assms(2,3)] assms(4) by simp
    show ?thesis
    proof (cases "t' = t")
      case False
      with m lm' lt' show ?thesis by (simp add: getitem_def)
    next
      case True
      with m lm' lt' ll' show ?thesis by (simp add: getitem_def nth_list_update)
    qed
  qed
  from set wf get show ?thesis by blast
qed

lemma map_of_replace:
  "map_of (map (\<lambda>(k', b). if k' = k then (k', a') else (k', b)) arrs) k'' =
   (if k'' = k then map_option (\<lambda>_. a') (map_of arrs k) else map_of arrs k'')"
  by (induction arrs) auto

lemma wf_arrs_lookup:
  assumes "wf_arrs nm nt nl ny nx arrs" and "k \<in> set var_names"
  shows "\<exists>a. map_of arrs k = Some a \<and> wf_arr nm nt nl ny nx a"
proof -
  from assms have "k \<in> fst ` set arrs" by (simp add: wf_arrs_def flip: set_map)
  then obtain a where "map_of arrs k = Some a"
    by (metis domD dom_map_of_conv_image_fst)
  moreover from this have "(k, a) \<in> set arrs" by (rule map_of_SomeD)
  with assms(1) have "wf_arr nm nt nl ny nx a" by (auto simp: wf_arrs_def list_all_iff)
  ultimately show ?thesis by blast
qed

lemma assign_slot_ok:
  assumes "wf_arrs nm nt nl ny nx arrs" and "m < nm" and "t < nt" and "l < nl"
    and "k \<in> set var_names" and "broadcast_to ny nx v = Inr g"
  shows "\<exists>arrs'. assign_slot arrs k m t l v = Inr arrs' \<and> wf_arrs nm nt nl ny nx arrs' \<and>
           (\<forall>k' m' t' l'. read_slot arrs' k' m' t' l' =
              (if k' = k \<and> m' = m \<and> t' = t \<and> l' = l then Some g
               else read_slot arrs k' m' t' l'))"
proof -
  from wf_arrs_lookup [OF assms(1,5)] obtain a where
    a: "map_of arrs k = Some a" and wfa: "wf_arr nm nt nl ny nx a" by blast
  from setitem_ok [OF wfa assms(2-4,6)] obtain a' where
    set: "setitem a m t l v = Inr a'" and wfa': "wf_arr nm nt nl ny nx a'"
    and get: "\<And>m' t' l'. getitem a' m' t' l' =
              (if m' = m \<and> t' = t \<and> l' = l then g else getitem a m' t' l')"
    by blast
  let ?arrs' = "map (\<lambda>(k', b). if k' = k then (k', a') else (k', b)) arrs"
  have 1: "assign_slot arrs k m t l v = Inr ?arrs'"
    by (simp add: assign_slot_def a set)
  have keys: "map fst ?arrs' = map fst arrs" by (induction arrs) auto
  have "list_all (\<lambda>(k, a). wf_arr nm nt nl ny nx a) ?arrs'"
    using assms(1) wfa' by (auto simp: wf_arrs_def list_all_iff split: if_splits)
  then have 2: "wf_arrs nm nt nl ny nx ?arrs'"
    using assms(1) unfolding wf_arrs_def keys by simp
  have 3: "read_slot ?arrs' k' m' t' l' =
              (if k' = k \<and> m' = m \<and> t' = t \<and> l' = l then Some g
               else read_slot arrs k' m' t' l')" for k' m' t' l'
    unfolding read_slot_def map_of_replace using a get by simp
  from 1 2 3 show ?thesis by blast
qed

subsection \<open>The assignments of one combination\<close>

lemma sequence_exn_Cons_Inr:
  "sequence_exn (r # rs) = Inr ys \<longleftrightarrow>
   (\<exists>x xs. r = Inr x \<and> sequence_exn rs = Inr xs \<and> ys = x # xs)"
  by (auto split: sum.splits)

lemma stored_keys:
  assumes "sequence_exn (map (\<lambda>(k, v).
            (case broadcast_to ny nx v of Inl e \<Rightarrow> Inl e | Inr g \<Rightarrow> Inr (k, g))) fs) = Inr stored"
  shows "map fst stored = map fst fs"
  using assms
proof (induction fs arbitrary: stored)
  case Nil
  then show ?case by simp
next
  case (Cons kv fs)
  obtain k v where kv: "kv = (k, v)" by (cases kv)
  from Cons.prems obtain x xs where
    x: "(case broadcast_to ny nx v of Inl e \<Rightarrow> Inl e | Inr g \<Rightarrow> Inr (k, g)) = Inr x"
    and xs: "sequence_exn (map (\<lambda>(k, v).
            (case broadcast_to ny nx v of Inl e \<Rightarrow> Inl e | Inr g \<Rightarrow> Inr (k, g))) fs) = Inr xs"
    and st: "stored = x # xs"
    unfolding kv list.map prod.case sequence_exn_Cons_Inr by blast
  from x have "fst x = k" by (auto split: sum.splits)
  with Cons.IH [OF xs] st kv show ?case by simp
qed

lemma store_fields_ok:
  assumes "wf_arrs nm nt nl ny nx arrs" and "m < nm" and "t < nt" and "l < nl"
    and "set (map fst fs) \<subseteq> set var_names" and "distinct (map fst fs)"
    and "sequence_exn (map (\<lambda>(k, v).
            (case broadcast_to ny nx v of Inl e \<Rightarrow> Inl e | Inr g \<Rightarrow> Inr (k, g))) fs) = Inr stored"
  shows "\<exists>arrs'. store_fields arrs m t l fs = (arrs', None) \<and> wf_arrs nm nt nl ny nx arrs' \<and>
           (\<forall>k' m' t' l'. read_slot arrs' k' m' t' l' =
              (if m' = m \<and> t' = t \<and> l' = l
               then (case map_of stored k' of None \<Rightarrow> read_slot arrs k' m t l | Some g \<Rightarrow> Some g)
               else read_slot arrs k' m' t' l'))"
  using assms(1,5,6,7)
proof (induction fs arbitrary: arrs stored)
  case Nil
  then show ?case by simp
next
  case (Cons kv fs)
  obtain k v where kv: "kv = (k, v)" by (cases kv)
  from Cons.prems(4) obtain x xs where
    x: "(case broadcast_to ny nx v of Inl e \<Rightarrow> Inl e | Inr g \<Rightarrow> Inr (k, g)) = Inr x"
    and xs: "sequence_exn (map (\<lambda>(k, v).
            (case broadcast_to ny nx v of Inl e \<Rightarrow> Inl e | Inr g \<Rightarrow> Inr (k, g))) fs) = Inr xs"
    and st: "stored = x # xs"
    unfolding kv list.map prod.case sequence_exn_Cons_Inr by blast
  from x obtain g where g: "broadcast_to ny nx v = Inr g" and xg: "x = (k, g)"
    by (auto split: sum.splits)
  from Cons.prems(2) kv have k: "k \<in> set var_names" and sub: "set (map fst fs) \<subseteq> set var_names"
    by simp_all
  from Cons.prems(3) kv have notin: "k \<notin> set (map fst fs)" and dist: "distinct (map fst fs)"
    by simp_all
  from assign_slot_ok [OF Cons.prems(1) assms(2-4) k g] obtain arrs1 where
    a1: "assign_slot arrs k m t l v = Inr arrs1" and wf1: "wf_arrs nm nt nl ny nx arrs1"
    and r1: "\<And>k' m' t' l'. read_slot arrs1 k' m' t' l' =
              (if k' = k \<and> m' = m \<and> t' = t \<and> l' = l then Some g
               else read_slot arrs k' m' t' l')"
    by blast
  from Cons.IH [OF wf1 sub dist xs] obtain arrs' where
    s: "store_fields arrs1 m t l fs = (arrs', None)" and wf': "wf_arrs nm nt nl ny nx arrs'"
    and r': "\<And>k' m' t' l'. read_slot arrs' k' m' t' l' =
              (if m' = m \<and> t' = t \<and> l' = l
               then (case map_of xs k' of None \<Rightarrow> read_slot arrs1 k' m t l | Some g \<Rightarrow> Some g)
               else read_slot arrs1 k' m' t' l')"
    by blast
  have "k \<notin> fst ` set xs" using notin stored_keys [OF xs] by (simp flip: set_map)
  then have kx: "map_of xs k = None" by (simp add: map_of_eq_None_iff)
  have 1: "store_fields arrs m t l (kv # fs) = (arrs', None)"
    by (simp add: kv a1 s)
  have 2: "read_slot arrs' k' m' t' l' =
              (if m' = m \<and> t' = t \<and> l' = l
               then (case map_of stored k' of None \<Rightarrow> read_slot arrs k' m t l | Some g \<Rightarrow> Some g)
               else read_slot arrs k' m' t' l')" for k' m' t' l'
    unfolding r' r1 st xg using kx by (auto split: option.splits)
  from 1 wf' 2 show ?case by blast
qed

lemma store_fields_first_raises:
  assumes "wf_arrs nm nt nl ny nx arrs" and "m < nm" and "t < nt" and "l < nl"
    and "k \<in> set var_names" and "broadcast_to ny nx v = Inl e"
  shows "store_fields arrs m t l ((k, v) # fs) = (arrs, Some e)"
proof -
  from wf_arrs_lookup [OF assms(1,5)] obtain a where
    a: "map_of arrs k = Some a" and wfa: "wf_arr nm nt nl ny nx a" by blast
  from wfa have "shape a = (nm, nt, nl, ny, nx)" by (simp add: wf_arr_def)
  with assms(2-4,6) have "setitem a m t l v = Inl e" by (simp add: setitem_def)
  with a show ?thesis by (simp add: assign_slot_def)
qed

lemma slice_fields_on_grid:
  assumes "slice_fields env ds_eth ds_wind dx dy member time level = Inr fs"
    and "operators_on_grid env dx dy ny nx"
  obtains eth rest where "fs = (''eth'', eth) # rest"
    and "map fst rest = [''dtedx'', ''dtedy'', ''absthe'', ''divg'', ''vort'']"
    and "\<forall>v \<in> set (map snd rest). has_shape ny nx v"
proof -
  note sf = assms(1) [unfolded slice_fields_def]
  obtain eth where 1: "ds_sel ds_eth ''eth'' member time level = Inr eth"
    using sf by (cases "ds_sel ds_eth ''eth'' member time level") simp_all
  note sf = sf [unfolded 1 sum.case]
  obtain u where 2: "ds_sel ds_wind ''ua'' member time level = Inr u"
    using sf by (cases "ds_sel ds_wind ''ua'' member time level") simp_all
  note sf = sf [unfolded 2 sum.case]
  obtain v where 3: "ds_sel ds_wind ''va'' member time level = Inr v"
    using sf by (cases "ds_sel ds_wind ''va'' member time level") simp_all
  note sf = sf [unfolded 3 sum.case]
  obtain gx gy where 4: "geospatial_gradient env eth dx dy = Inr (gx, gy)"
    using sf by (cases "geospatial_gradient env eth dx dy") auto
  note sf = sf [unfolded 4 sum.case prod.case]
  obtain ab where 5: "grid_op2 hypot gx gy = Inr ab"
    using sf by (cases "grid_op2 hypot gx gy") simp_all
  note sf = sf [unfolded 5 sum.case]
  obtain d where 6: "divergence env u v dx dy = Inr d"
    using sf by (cases "divergence env u v dx dy") simp_all
  note sf = sf [unfolded 6 sum.case]
  obtain z where 7: "vorticity env u v dx dy = Inr z"
    using sf by (cases "vorticity env u v dx dy") simp_all
  note sf = sf [unfolded 7 sum.case]
  from sf have fs: "fs = [(''eth'', eth), (''dtedx'', gx), (''dtedy'', gy), (''absthe'', ab),
                   (''divg'', d), (''vort'', z)]"
    by simp
  from assms(2) 4 have sx: "has_shape ny nx gx" and sy: "has_shape ny nx gy"
    unfolding operators_on_grid_def by blast+
  from assms(2) 6 have sd: "has_shape ny nx d" unfolding operators_on_grid_def by blast
  from assms(2) 7 have sz: "has_shape ny nx z" unfolding operators_on_grid_def by blast
  from grid_op2_has_shape [OF sx sy, of hypot] 5 have sa: "has_shape ny nx ab" by simp
  show ?thesis
  proof (rule that)
    show "fs = (''eth'', eth) # [(''dtedx'', gx), (''dtedy'', gy), (''absthe'', ab),
                   (''divg'', d), (''vort'', z)]"
      by (rule fs)
    show "map fst [(''dtedx'', gx), (''dtedy'', gy), (''absthe'', ab), (''divg'', d),
                   (''vort'', z)] = [''dtedx'', ''dtedy'', ''absthe'', ''divg'', ''vort'']"
      by simp
    show "\<forall>v \<in> set (map snd [(''dtedx'', gx), (''dtedy'', gy), (''absthe'', ab), (''divg'', d),
                   (''vort'', z)]). has_shape ny nx v"
      using sx sy sa sd sz by simp
  qed
qed

lemma stored_on_grid:
  assumes "\<forall>v \<in> set (map snd rest). has_shape ny nx v"
  shows "sequence_exn (map (\<lambda>(k, v).
            (case broadcast_to ny nx v of Inl e \<Rightarrow> Inl e | Inr g \<Rightarrow> Inr (k, g))) rest) = Inr rest"
proof -
  from assms have "\<forall>p \<in> set rest. (\<lambda>(k, v).
            (case broadcast_to ny nx v of Inl e \<Rightarrow> Inl e | Inr g \<Rightarrow> Inr (k, g))) p = Inr (id p)"
    by (auto simp: broadcast_to_has_shape)
  then have "sequence_exn (map (\<lambda>(k, v).
            (case broadcast_to ny nx v of Inl e \<Rightarrow> Inl e | Inr g \<Rightarrow> Inr (k, g))) rest) =
          Inr (map id rest)"
    by (rule sequence_exn_all_Inr)
  then show ?thesis by simp
qed

lemma try_slice_raises:
  assumes "try_slice env ds_eth ds_wind dx dy arrs m member t time l level = (arrs, Some e)"
    and "slice_outcome env ds_eth ds_wind dx dy ny nx member time level = Inl e"
    and "wf_arrs nm nt nl ny nx arrs"
  shows "\<exists>arrs'. try_slice env ds_eth ds_wind dx dy arrs m member t time l level =
             (arrs', (case slice_outcome env ds_eth ds_wind dx dy ny nx member time level of
                        Inl e \<Rightarrow> Some e | Inr stored \<Rightarrow> None)) \<and>
           wf_arrs nm nt nl ny nx arrs' \<and>
           (\<forall>k' m' t' l'. read_slot arrs' k' m' t' l' =
              (if m' = m \<and> t' = t \<and> l' = l
               then slot_after env ds_eth ds_wind dx dy ny nx member time level k'
                      (read_slot arrs k' m t l)
               else read_slot arrs k' m' t' l'))"
proof (intro exI conjI allI)
  show "try_slice env ds_eth ds_wind dx dy arrs m member t time l level =
             (arrs, (case slice_outcome env ds_eth ds_wind dx dy ny nx member time level of
                        Inl e \<Rightarrow> Some e | Inr stored \<Rightarrow> None))"
    unfolding assms(1,2) by simp
  show "wf_arrs nm nt nl ny nx arrs" by (rule assms(3))
  show "read_slot arrs k' m' t' l' =
              (if m' = m \<and> t' = t \<and> l' = l
               then slot_after env ds_eth ds_wind dx dy ny nx member time level k'
                      (read_slot arrs k' m t l)
               else read_slot arrs k' m' t' l')" for k' m' t' l'
    unfolding slot_after_def assms(2) by simp
qed

lemma try_slice_step:
  assumes wf: "wf_arrs nm nt nl ny nx arrs" and m: "m < nm" and t: "t < nt" and l: "l < nl"
    and lib: "operators_on_grid env dx dy ny nx"
  shows "\<exists>arrs'. try_slice env ds_eth ds_wind dx dy arrs m member t time l level =
             (arrs', (case slice_outcome env ds_eth ds_wind dx dy ny nx member time level of
                        Inl e \<Rightarrow> Some e | Inr stored \<Rightarrow> None)) \<and>
           wf_arrs nm nt nl ny nx arrs' \<and>
           (\<forall>k' m' t' l'. read_slot arrs' k' m' t' l' =
              (if m' = m \<and> t' = t \<and> l' = l
               then slot_after env ds_eth ds_wind dx dy ny nx member time level k'
                      (read_slot arrs k' m t l)
               else read_slot arrs k' m' t' l'))"
proof (cases "slice_fields env ds_eth ds_wind dx dy member time level")
  case (Inl e)
  have 1: "try_slice env ds_eth ds_wind dx dy arrs m member t time l level = (arrs, Some e)"
    by (simp add: try_slice_def Inl)
  have 2: "slice_outcome env ds_eth ds_wind dx dy ny nx member time level = Inl e"
    by (simp add: slice_outcome_def Inl)
  from 1 2 wf show ?thesis by (rule try_slice_raises)
next
  case (Inr fs)
  obtain eth rest where
    fs: "fs = (''eth'', eth) # rest"
    and keys: "map fst rest = [''dtedx'', ''dtedy'', ''absthe'', ''divg'', ''vort'']"
    and grid: "\<forall>v \<in> set (map snd rest). has_shape ny nx v"
    by (rule slice_fields_on_grid [OF Inr lib])
  note rest = stored_on_grid [OF grid]
  show ?thesis
  proof (cases "broadcast_to ny nx eth")
    case e: (Inl e)
    have k: "''eth'' \<in> set var_names" by (simp add: var_names_def)
    have "store_fields arrs m t l fs = (arrs, Some e)"
      unfolding fs by (rule store_fields_first_raises [OF wf m t l k e])
    then have 1: "try_slice env ds_eth ds_wind dx dy arrs m member t time l level =
                  (arrs, Some e)"
      by (simp add: try_slice_def Inr)
    have 2: "slice_outcome env ds_eth ds_wind dx dy ny nx member time level = Inl e"
      unfolding slice_outcome_def Inr fs by (simp add: e)
    from 1 2 wf show ?thesis by (rule try_slice_raises)
  next
    case g: (Inr g)
    have out: "slice_outcome env ds_eth ds_wind dx dy ny nx member time level =
               Inr ((''eth'', g) # rest)"
      unfolding slice_outcome_def Inr fs by (simp add: g rest)
    have sub: "set (map fst fs) \<subseteq> set var_names" and dist: "distinct (map fst fs)"
      by (simp_all add: fs keys var_names_def)
    have seq: "sequence_exn (map (\<lambda>(k, v).
            (case broadcast_to ny nx v of Inl e \<Rightarrow> Inl e | Inr g \<Rightarrow> Inr (k, g))) fs) =
          Inr ((''eth'', g) # rest)"
      unfolding fs by (simp add: g rest)
    from store_fields_ok [OF wf m t l sub dist seq] obtain arrs' where
      st: "store_fields arrs m t l fs = (arrs', None)" and wf': "wf_arrs nm nt nl ny nx arrs'"
      and rd: "\<And>k' m' t' l'. read_slot arrs' k' m' t' l' =
              (if m' = m \<and> t' = t \<and> l' = l
               then (case map_of ((''eth'', g) # rest) k' of
                       None \<Rightarrow> read_slot arrs k' m t l | Some g \<Rightarrow> Some g)
               else read_slot arrs k' m' t' l')"
      by blast
    show ?thesis
    proof (intro exI conjI allI)
      show "try_slice env ds_eth ds_wind dx dy arrs m member t time l level =
             (arrs', (case slice_outcome env ds_eth ds_wind dx dy ny nx member time level of
                        Inl e \<Rightarrow> Some e | Inr stored \<Rightarrow> None))"
        unfolding out by (simp add: try_slice_def Inr st)
      show "wf_arrs nm nt nl ny nx arrs'" by (rule wf')
      show "read_slot arrs' k' m' t' l' =
              (if m' = m \<and> t' = t \<and> l' = l
               then slot_after env ds_eth ds_wind dx dy ny nx member time level k'
                      (read_slot arrs k' m t l)
               else read_slot arrs k' m' t' l')" for k' m' t' l'
        unfolding slot_after_def out sum.case by (rule rd)
    qed
  qed
qed

subsection \<open>The loops change each slot once, in its own iteration\<close>

lemma fold_enumerate_view:
  assumes step: "\<And>i x s. I s \<Longrightarrow> B i \<Longrightarrow>
      I (F (i, x) s) \<and>
      (\<forall>c j. V (F (i, x) s) c j = (if j = i then U x c (V s c i) else V s c j))"
    and "I s" and "\<forall>i. n \<le> i \<and> i < n + length xs \<longrightarrow> B i"
  shows "I (fold F (enumerate n xs) s) \<and>
     (\<forall>c j. V (fold F (enumerate n xs) s) c j =
        (if n \<le> j \<and> j < n + length xs then U (xs ! (j - n)) c (V s c j) else V s c j))"
  using assms(2,3)
proof (induction xs arbitrary: n s)
  case Nil
  then show ?case by auto
next
  case (Cons x xs)
  from Cons.prems(2) have Bn: "B n" by simp
  from step [OF Cons.prems(1) Bn, of x] have I1: "I (F (n, x) s)"
    and V1: "\<And>c j. V (F (n, x) s) c j = (if j = n then U x c (V s c n) else V s c j)"
    by simp_all
  from Cons.prems(2) have B': "\<forall>i. Suc n \<le> i \<and> i < Suc n + length xs \<longrightarrow> B i" by simp
  from Cons.IH [OF I1 B'] have I2: "I (fold F (enumerate (Suc n) xs) (F (n, x) s))"
    and V2: "\<And>c j. V (fold F (enumerate (Suc n) xs) (F (n, x) s)) c j =
        (if Suc n \<le> j \<and> j < Suc n + length xs
         then U (xs ! (j - Suc n)) c (V (F (n, x) s) c j) else V (F (n, x) s) c j)"
    by simp_all
  have "V (fold F (enumerate n (x # xs)) s) c j =
        (if n \<le> j \<and> j < n + length (x # xs) then U ((x # xs) ! (j - n)) c (V s c j)
         else V s c j)" for c j
  proof (cases "j = n")
    case True
    then show ?thesis by (simp add: V2 V1)
  next
    case False
    show ?thesis
    proof (cases "Suc n \<le> j \<and> j < Suc n + length xs")
      case True
      then have "(x # xs) ! (j - n) = xs ! (j - Suc n)" by (simp add: nth_Cons')
      with True False show ?thesis by (simp add: V2 V1)
    next
      case F2: False
      with False have "\<not> (n \<le> j \<and> j < n + length (x # xs))" by auto
      with F2 False show ?thesis by (auto simp: V2 V1)
    qed
  qed
  with I2 show ?case by simp
qed

lemma level_step_slot:
  assumes "wf_arrs nm nt nl ny nx (arrays st)" and "m < nm" and "t < nt" and "l < nl"
    and "operators_on_grid env dx dy ny nx"
  shows "wf_arrs nm nt nl ny nx
           (arrays (level_step env ds_eth ds_wind dx dy m member t time (l, level) st)) \<and>
     (\<forall>k' m' t' l'. read_slot
           (arrays (level_step env ds_eth ds_wind dx dy m member t time (l, level) st))
           k' m' t' l' =
        (if m' = m \<and> t' = t \<and> l' = l
         then slot_after env ds_eth ds_wind dx dy ny nx member time level k'
                (read_slot (arrays st) k' m t l)
         else read_slot (arrays st) k' m' t' l'))"
proof -
  from try_slice_step [OF assms, of ds_eth ds_wind member time level] obtain arrs' r where
    ts: "try_slice env ds_eth ds_wind dx dy (arrays st) m member t time l level = (arrs', r)"
    and wf': "wf_arrs nm nt nl ny nx arrs'"
    and rd: "\<And>k' m' t' l'. read_slot arrs' k' m' t' l' =
              (if m' = m \<and> t' = t \<and> l' = l
               then slot_after env ds_eth ds_wind dx dy ny nx member time level k'
                      (read_slot (arrays st) k' m t l)
               else read_slot (arrays st) k' m' t' l')"
    by metis
  have arr: "arrays (level_step env ds_eth ds_wind dx dy m member t time (l, level) st) = arrs'"
    by (simp add: level_step_arrays ts)
  show ?thesis unfolding arr using wf' rd by blast
qed

lemma time_step_slot:
  assumes wf: "wf_arrs nm nt nl ny nx (arrays st)" and m: "m < nm" and t: "t < nt"
    and len: "length LEVELS \<le> nl"
    and lib: "operators_on_grid env dx dy ny nx"
  shows "wf_arrs nm nt nl ny nx
           (arrays (time_step env ds_eth ds_wind dx dy LEVELS m member (t, time) st)) \<and>
     (\<forall>k' m' t' l'. read_slot
           (arrays (time_step env ds_eth ds_wind dx dy LEVELS m member (t, time) st))
           k' m' t' l' =
        (if m' = m \<and> t' = t \<and> l' < length LEVELS
         then slot_after env ds_eth ds_wind dx dy ny nx member time (LEVELS ! l') k'
                (read_slot (arrays st) k' m' t' l')
         else read_slot (arrays st) k' m' t' l'))"
proof -
  define I where "I = (\<lambda>s :: loop_state. wf_arrs nm nt nl ny nx (arrays s))"
  define B where "B = (\<lambda>l. l < nl)"
  define F where "F = level_step env ds_eth ds_wind dx dy m member t time"
  define V where "V = (\<lambda>(s :: loop_state) (c :: string \<times> nat \<times> nat) l'.
    read_slot (arrays s) (fst c) (fst (snd c)) (snd (snd c)) l')"
  define U where "U = (\<lambda>level (c :: string \<times> nat \<times> nat) old.
    if fst (snd c) = m \<and> snd (snd c) = t
    then slot_after env ds_eth ds_wind dx dy ny nx member time level (fst c) old else old)"
  have step: "I (F (i, x) s) \<and>
      (\<forall>c j. V (F (i, x) s) c j = (if j = i then U x c (V s c i) else V s c j))"
    if "I s" and "B i" for i x s
  proof -
    from that have w: "wf_arrs nm nt nl ny nx (arrays s)" and i: "i < nl"
      by (simp_all add: I_def B_def)
    from level_step_slot [OF w m t i lib, of ds_eth ds_wind member time x]
    show ?thesis unfolding I_def F_def V_def U_def by auto
  qed
  have I0: "I st" using wf by (simp add: I_def)
  have B0: "\<forall>i. 0 \<le> i \<and> i < 0 + length LEVELS \<longrightarrow> B i" using len by (simp add: B_def)
  from fold_enumerate_view [of I B F V U, OF step I0 B0]
  have 1: "I (fold F (enumerate 0 LEVELS) st)"
    and 2: "\<And>c j. V (fold F (enumerate 0 LEVELS) st) c j =
        (if 0 \<le> j \<and> j < 0 + length LEVELS then U (LEVELS ! (j - 0)) c (V st c j)
         else V st c j)"
    by blast+
  have ts: "time_step env ds_eth ds_wind dx dy LEVELS m member (t, time) st =
            fold F (enumerate 0 LEVELS) st"
    by (simp add: time_step_def F_def)
  have "read_slot (arrays (fold F (enumerate 0 LEVELS) st)) k' m' t' l' =
        (if m' = m \<and> t' = t \<and> l' < length LEVELS
         then slot_after env ds_eth ds_wind dx dy ny nx member time (LEVELS ! l') k'
                (read_slot (arrays st) k' m' t' l')
         else read_slot (arrays st) k' m' t' l')" for k' m' t' l'
    using 2 [of "(k', m', t')" l'] by (simp add: V_def U_def)
  with 1 show ?thesis unfolding ts I_def by blast
qed

lemma member_step_slot:
  assumes wf: "wf_arrs nm nt nl ny nx (arrays st)" and m: "m < nm"
    and lent: "length ts \<le> nt" and len: "length LEVELS \<le> nl"
    and lib: "operators_on_grid env dx dy ny nx"
  shows "wf_arrs nm nt nl ny nx
           (arrays (member_step env ds_eth ds_wind dx dy LEVELS ts (m, member) st)) \<and>
     (\<forall>k' m' t' l'. read_slot
           (arrays (member_step env ds_eth ds_wind dx dy LEVELS ts (m, member) st))
           k' m' t' l' =
        (if m' = m \<and> t' < length ts \<and> l' < length LEVELS
         then slot_after env ds_eth ds_wind dx dy ny nx member (ts ! t') (LEVELS ! l') k'
                (read_slot (arrays st) k' m' t' l')
         else read_slot (arrays st) k' m' t' l'))"
proof -
  define I where "I = (\<lambda>s :: loop_state. wf_arrs nm nt nl ny nx (arrays s))"
  define B where "B = (\<lambda>t. t < nt)"
  define F where "F = time_step env ds_eth ds_wind dx dy LEVELS m member"
  define V where "V = (\<lambda>(s :: loop_state) (c :: string \<times> nat \<times> nat) t'.
    read_slot (arrays s) (fst c) (fst (snd c)) t' (snd (snd c)))"
  define U where "U = (\<lambda>time (c :: string \<times> nat \<times> nat) old.
    if fst (snd c) = m \<and> snd (snd c) < length LEVELS
    then slot_after env ds_eth ds_wind dx dy ny nx member time (LEVELS ! snd (snd c)) (fst c) old
    else old)"
  have step: "I (F (i, x) s) \<and>
      (\<forall>c j. V (F (i, x) s) c j = (if j = i then U x c (V s c i) else V s c j))"
    if "I s" and "B i" for i x s
  proof -
    from that have w: "wf_arrs nm nt nl ny nx (arrays s)" and i: "i < nt"
      by (simp_all add: I_def B_def)
    from time_step_slot [OF w m i len lib, of ds_eth ds_wind member x]
    show ?thesis unfolding I_def F_def V_def U_def by auto
  qed
  have I0: "I st" using wf by (simp add: I_def)
  have B0: "\<forall>i. 0 \<le> i \<and> i < 0 + length ts \<longrightarrow> B i" using lent by (simp add: B_def)
  from fold_enumerate_view [of I B F V U, OF step I0 B0]
  have 1: "I (fold F (enumerate 0 ts) st)"
    and 2: "\<And>c j. V (fold F (enumerate 0 ts) st) c j =
        (if 0 \<le> j \<and> j < 0 + length ts then U (ts ! (j - 0)) c (V st c j)
         else V st c j)"
    by blast+
  have ms: "member_step env ds_eth ds_wind dx dy LEVELS ts (m, member) st =
            fold F (enumerate 0 ts) st"
    by (simp add: member_step_def F_def)
  have "read_slot (arrays (fold F (enumerate 0 ts) st)) k' m' t' l' =
        (if m' = m \<and> t' < length ts \<and> l' < length LEVELS
         then slot_after env ds_eth ds_wind dx dy ny nx member (ts ! t') (LEVELS ! l') k'
                (read_slot (arrays st) k' m' t' l')
         else read_slot (arrays st) k' m' t' l')" for k' m' t' l'
    using 2 [of "(k', m', l')" t'] by (simp add: V_def U_def)
  with 1 show ?thesis unfolding ms I_def by blast
qed

lemma triple_loop_slot:
  assumes wf: "wf_arrs nm nt nl ny nx (arrays st)" and lenm: "length ms \<le> nm"
    and lent: "length ts \<le> nt" and len: "length LEVELS \<le> nl"
    and lib: "operators_on_grid env dx dy ny nx"
  shows "read_slot (arrays (triple_loop env ds_eth ds_wind dx dy ms ts LEVELS st)) k' m' t' l' =
        (if m' < length ms \<and> t' < length ts \<and> l' < length LEVELS
         then slot_after env ds_eth ds_wind dx dy ny nx (ms ! m') (ts ! t') (LEVELS ! l') k'
                (read_slot (arrays st) k' m' t' l')
         else read_slot (arrays st) k' m' t' l')"
proof -
  define I where "I = (\<lambda>s :: loop_state. wf_arrs nm nt nl ny nx (arrays s))"
  define B where "B = (\<lambda>m. m < nm)"
  define F where "F = member_step env ds_eth ds_wind dx dy LEVELS ts"
  define V where "V = (\<lambda>(s :: loop_state) (c :: string \<times> nat \<times> nat) m'.
    read_slot (arrays s) (fst c) m' (fst (snd c)) (snd (snd c)))"
  define U where "U = (\<lambda>member (c :: string \<times> nat \<times> nat) old.
    if fst (snd c) < length ts \<and> snd (snd c) < length LEVELS
    then slot_after env ds_eth ds_wind dx dy ny nx member (ts ! fst (snd c))
           (LEVELS ! snd (snd c)) (fst c) old
    else old)"
  have step: "I (F (i, x) s) \<and>
      (\<forall>c j. V (F (i, x) s) c j = (if j = i then U x c (V s c i) else V s c j))"
    if "I s" and "B i" for i x s
  proof -
    from that have w: "wf_arrs nm nt nl ny nx (arrays s)" and i: "i < nm"
      by (simp_all add: I_def B_def)
    from member_step_slot [OF w i lent len lib, of ds_eth ds_wind x]
    show ?thesis unfolding I_def F_def V_def U_def by auto
  qed
  have I0: "I st" using wf by (simp add: I_def)
  have B0: "\<forall>i. 0 \<le> i \<and> i < 0 + length ms \<longrightarrow> B i" using lenm by (simp add: B_def)
  from fold_enumerate_view [of I B F V U, OF step I0 B0]
  have 2: "\<And>c j. V (fold F (enumerate 0 ms) st) c j =
        (if 0 \<le> j \<and> j < 0 + length ms then U (ms ! (j - 0)) c (V st c j)
         else V st c j)"
    by blast
  have tl: "triple_loop env ds_eth ds_wind dx dy ms ts LEVELS st = fold F (enumerate 0 ms) st"
    by (simp add: triple_loop_def F_def)
  show ?thesis unfolding tl using 2 [of "(k', t', l')" m'] by (simp add: V_def U_def)
qed

subsection \<open>The slots after the whole loop\<close>

lemma init_output_arrays_wf: "wf_arrs nm nt nl ny nx (init_output_arrays nm nt nl ny nx)"
  by (simp add: wf_arrs_def init_output_arrays_def comp_def list_all_iff wf_arr_def
      np_full_nan_def)

lemma read_slot_init:
  assumes "k \<in> set var_names" and "m < nm" and "t < nt" and "l < nl"
  shows "read_slot (init_output_arrays nm nt nl ny nx) k m t l = Some (nan_grid ny nx)"
proof -
  have "map_of (map (\<lambda>k. (k, np_full_nan nm nt nl ny nx)) var_names) k =
        Some (np_full_nan nm nt nl ny nx)"
    using assms(1) by (simp add: map_of_map_restrict)
  moreover have "getitem (np_full_nan nm nt nl ny nx) m t l = nan_grid ny nx"
    using assms(2-4) by (simp add: getitem_def np_full_nan_def nan_grid_def)
  ultimately show ?thesis by (simp add: read_slot_def init_output_arrays_def)
qed

lemma run_loop_slot:
  assumes sh: "shape2 (ds_XLAT ds_eth) = (ny, nx)"
    and lib: "operators_on_grid env dx dy ny nx"
    and m: "m < length (ds_member ds_eth)" and t: "t < length (ds_Time ds_eth)"
    and l: "l < length LEVELS"
    and k: "k \<in> set var_names"
  shows "read_slot (arrays (run_loop env ds_eth ds_wind dx dy LEVELS con)) k m t l =
     (case slice_outcome env ds_eth ds_wind dx dy ny nx (ds_member ds_eth ! m)
             (ds_Time ds_eth ! t) (LEVELS ! l) of
        Inl e \<Rightarrow> Some (nan_grid ny nx)
      | Inr stored \<Rightarrow> (case map_of stored k of None \<Rightarrow> Some (nan_grid ny nx) | Some g \<Rightarrow> Some g))"
proof -
  let ?nm = "length (ds_member ds_eth)" and ?nt = "length (ds_Time ds_eth)"
  let ?nl = "length LEVELS"
  let ?st = "\<lparr>arrays = init_output_arrays ?nm ?nt ?nl ny nx, current_iteration = 0,
              console = con\<rparr>"
  have wf: "wf_arrs ?nm ?nt ?nl ny nx (arrays ?st)" by (simp add: init_output_arrays_wf)
  have rl: "run_loop env ds_eth ds_wind dx dy LEVELS con =
            triple_loop env ds_eth ds_wind dx dy (ds_member ds_eth) (ds_Time ds_eth) LEVELS ?st"
    by (simp add: run_loop_def sh Let_def)
  have "read_slot (arrays (run_loop env ds_eth ds_wind dx dy LEVELS con)) k m t l =
        slot_after env ds_eth ds_wind dx dy ny nx (ds_member ds_eth ! m) (ds_Time ds_eth ! t)
          (LEVELS ! l) k (read_slot (arrays ?st) k m t l)"
    unfolding rl using triple_loop_slot [OF wf order_refl order_refl order_refl lib] m t l
    by simp
  also have "read_slot (arrays ?st) k m t l = Some (nan_grid ny nx)"
    using read_slot_init [OF k m t l] by simp
  finally show ?thesis by (simp add: slot_after_def)
qed

lemma stored_lookup:
  assumes "sequence_exn (map (\<lambda>(k, v).
            (case broadcast_to ny nx v of Inl e \<Rightarrow> Inl e | Inr g \<Rightarrow> Inr (k, g))) fs) = Inr stored"
  shows "map_of stored k =
     (case map_of fs k of None \<Rightarrow> None
      | Some v \<Rightarrow> (case broadcast_to ny nx v of Inl e \<Rightarrow> None | Inr g \<Rightarrow> Some g))"
  using assms
proof (induction fs arbitrary: stored)
  case Nil
  then show ?case by simp
next
  case (Cons kv fs)
  obtain k0 v0 where kv: "kv = (k0, v0)" by (cases kv)
  from Cons.prems obtain x xs where
    x: "(case broadcast_to ny nx v0 of Inl e \<Rightarrow> Inl e | Inr g \<Rightarrow> Inr (k0, g)) = Inr x"
    and xs: "sequence_exn (map (\<lambda>(k, v).
            (case broadcast_to ny nx v of Inl e \<Rightarrow> Inl e | Inr g \<Rightarrow> Inr (k, g))) fs) = Inr xs"
    and st: "stored = x # xs"
    unfolding kv list.map prod.case sequence_exn_Cons_Inr by blast
  from x obtain g where g: "broadcast_to ny nx v0 = Inr g" and xg: "x = (k0, g)"
    by (auto split: sum.splits)
  show ?case unfolding st xg kv using Cons.IH [OF xs] g by simp
qed

lemma slice_outcome_stored:
  assumes "slice_outcome env ds_eth ds_wind dx dy ny nx member time level = Inr stored"
    and "operators_on_grid env dx dy ny nx"
    and "k \<in> set var_names"
  shows "\<exists>fs v g. slice_fields env ds_eth ds_wind dx dy member time level = Inr fs \<and>
           map_of fs k = Some v \<and> broadcast_to ny nx v = Inr g \<and> map_of stored k = Some g"
proof -
  from assms(1) obtain fs where
    sf: "slice_fields env ds_eth ds_wind dx dy member time level = Inr fs"
    and seq: "sequence_exn (map (\<lambda>(k, v).
            (case broadcast_to ny nx v of Inl e \<Rightarrow> Inl e | Inr g \<Rightarrow> Inr (k, g))) fs) = Inr stored"
    by (cases "slice_fields env ds_eth ds_wind dx dy member time level")
       (simp_all add: slice_outcome_def)
  obtain eth rest where
    fs: "fs = (''eth'', eth) # rest"
    and keys: "map fst rest = [''dtedx'', ''dtedy'', ''absthe'', ''divg'', ''vort'']"
    by (rule slice_fields_on_grid [OF sf assms(2)])
  have "map fst fs = var_names" by (simp add: fs keys var_names_def)
  with assms(3) have "k \<in> fst ` set fs" by (simp flip: set_map)
  then obtain v where v: "map_of fs k = Some v"
    by (metis domD dom_map_of_conv_image_fst)
  have "map fst stored = map fst fs" using seq by (rule stored_keys)
  with \<open>k \<in> fst ` set fs\<close> have "k \<in> fst ` set stored" by (simp flip: set_map)
  then obtain g where g: "map_of stored k = Some g"
    by (metis domD dom_map_of_conv_image_fst)
  from stored_lookup [OF seq, of k] v g have "broadcast_to ny nx v = Inr g"
    by (simp split: sum.splits)
  with sf v g show ?thesis by metis
qed

lemma nan_where_has_shape: "has_shape ny nx g \<Longrightarrow> has_shape ny nx (nan_where g)"
  by (simp add: has_shape_def nan_where_def list_all_iff)

lemma ex_env_on_grid: "operators_on_grid (ex_env field failure) dx dy 2 2"
  by (auto simp: operators_on_grid_def ex_env_def nan_where_has_shape split: if_splits)

lemma ex_slice_fields:
  assumes "has_shape 2 2 field"
  shows "slice_fields (ex_env field None) (ex_ds field) (ex_ds field) dx dy 1 0 875 =
     Inr [(''eth'', field), (''dtedx'', nan_where field), (''dtedy'', nan_where field),
          (''absthe'', map (\<lambda>(r, s). map (\<lambda>(x, y). hypot x y) (zip r s))
                          (zip (nan_where field) (nan_where field))),
          (''divg'', nan_where field), (''vort'', nan_where field)]"
proof -
  have s: "has_shape 2 2 (nan_where field)" using assms by (rule nan_where_has_shape)
  then have la: "length (nan_where field) = 2"
    and ra: "\<forall>r \<in> set (nan_where field). length r = 2"
    by (simp_all add: has_shape_def list_all_iff)
  have row: "zip_bcast (\<lambda>x y. Inr (hypot x y)) r s = Inr (map (\<lambda>(x, y). hypot x y) (zip r s))"
    if "(r, s) \<in> set (zip (nan_where field) (nan_where field))" for r s
  proof -
    from that have "r \<in> set (nan_where field)" "s \<in> set (nan_where field)"
      by (auto dest: set_zip_leftD set_zip_rightD)
    with ra have "length r = length s" by simp
    then show ?thesis by (rule zip_bcast_same_length) simp
  qed
  have h: "grid_op2 hypot (nan_where field) (nan_where field) =
        Inr (map (\<lambda>(r, s). map (\<lambda>(x, y). hypot x y) (zip r s))
               (zip (nan_where field) (nan_where field)))"
    unfolding grid_op2_def using row by (intro zip_bcast_same_length) auto
  show ?thesis
    by (simp add: slice_fields_def ex_env_def ex_ds_def assms h)
qed

lemma ex_slice_outcome_numbers:
  "slice_outcome (ex_env ex_field None) (ex_ds ex_field) (ex_ds ex_field) dx dy 2 2 1 0 875 =
     Inr [(''eth'', ex_field),
          (''dtedx'', [[Fin 0, Fin 0], [Fin 0, Fin 0]]),
          (''dtedy'', [[Fin 0, Fin 0], [Fin 0, Fin 0]]),
          (''absthe'', [[Fin 0, Fin 0], [Fin 0, Fin 0]]),
          (''divg'', [[Fin 0, Fin 0], [Fin 0, Fin 0]]),
          (''vort'', [[Fin 0, Fin 0], [Fin 0, Fin 0]])]"
proof -
  have sh: "has_shape 2 2 ex_field" by (simp add: has_shape_def ex_field_def)
  have nw: "nan_where ex_field = [[Fin 0, Fin 0], [Fin 0, Fin 0]]"
    by (simp add: nan_where_def ex_field_def)
  have bc: "broadcast_to 2 2 [[a, b], [c, d]] = Inr [[a, b], [c, d]]" for a b c d :: fl
    by (rule broadcast_to_has_shape) (simp add: has_shape_def)
  show ?thesis
    unfolding slice_outcome_def ex_slice_fields [OF sh] nw
    by (simp add: bc hypot_def) (simp add: ex_field_def bc)
qed

lemma ex_slice_outcome_nan:
  "slice_outcome (ex_env ex_nan_field None) (ex_ds ex_nan_field) (ex_ds ex_nan_field) dx dy 2 2
     1 0 875 =
     Inr [(''eth'', ex_nan_field), (''dtedx'', ex_nan_field), (''dtedy'', ex_nan_field),
          (''absthe'', ex_nan_field), (''divg'', ex_nan_field), (''vort'', ex_nan_field)]"
proof -
  have sh: "has_shape 2 2 ex_nan_field" by (simp add: has_shape_def ex_nan_field_def)
  have nw: "nan_where ex_nan_field = [[NaN, NaN], [NaN, NaN]]"
    by (simp add: nan_where_def ex_nan_field_def)
  have bc: "broadcast_to 2 2 [[a, b], [c, d]] = Inr [[a, b], [c, d]]" for a b c d :: fl
    by (rule broadcast_to_has_shape) (simp add: has_shape_def)
  show ?thesis
    unfolding slice_outcome_def ex_slice_fields [OF sh] nw
    by (simp add: bc hypot_def) (simp add: ex_nan_field_def bc)
qed

lemma ex_slice_outcome_raises:
  "slice_outcome (ex_env ex_field None) (ex_ds ex_field) ex_wind dx dy 2 2 1 0 850 =
     Inl KeyError"
  by (simp add: slice_outcome_def slice_fields_def ex_ds_def ex_wind_def)

text \<open>
  Claim C1, as stated, fails: a slice whose computation completes can leave its slot
  filled with the sentinel. An input slice that is NaN everywhere is stored as it is, so
  the \<open>eth\<close> slot of a completed combination holds nothing but NaN.
\<close>

theorem completed_slice_can_leave_the_sentinel:
  "snd (try_slice (ex_env ex_nan_field None) (ex_ds ex_nan_field) (ex_ds ex_nan_field)
          [[Fin 1000], [Fin 1000]] [[Fin 1000, Fin 1000]] (init_output_arrays 1 1 2 2 2)
          0 1 0 0 0 875) = None \<and>
   read_slot (arrays (run_loop (ex_env ex_nan_field None) (ex_ds ex_nan_field)
          (ex_ds ex_nan_field) [[Fin 1000], [Fin 1000]] [[Fin 1000, Fin 1000]] [875, 850] []))
     ''eth'' 0 0 0 = Some (nan_grid 2 2)"
proof -
  let ?env = "ex_env ex_nan_field None" and ?ds = "ex_ds ex_nan_field"
  let ?dx = "[[Fin 1000], [Fin 1000]]" and ?dy = "[[Fin 1000, Fin 1000]]"
  have lib: "operators_on_grid ?env ?dx ?dy 2 2" by (rule ex_env_on_grid)
  have wf: "wf_arrs 1 1 2 2 2 (init_output_arrays 1 1 2 2 2)" by (rule init_output_arrays_wf)
  from try_slice_step [OF wf _ _ _ lib, of 0 0 0 ?ds ?ds 1 0 875]
  have 1: "snd (try_slice ?env ?ds ?ds ?dx ?dy (init_output_arrays 1 1 2 2 2) 0 1 0 0 0 875) = None"
    by (auto simp: ex_slice_outcome_nan)
  have sh: "shape2 (ds_XLAT ?ds) = (2, 2)" by (simp add: shape2_def ex_ds_def)
  have k: "''eth'' \<in> set var_names" by (simp add: var_names_def)
  have "read_slot (arrays (run_loop ?env ?ds ?ds ?dx ?dy [875, 850] [])) ''eth'' 0 0 0 =
        Some ex_nan_field"
    using run_loop_slot [OF sh lib _ _ _ k, of 0 0 0 "[875, 850]" ?ds "[]"]
    by (simp add: ex_ds_def ex_slice_outcome_nan [unfolded ex_ds_def])
  with 1 show ?thesis by (simp add: nan_grid_def ex_nan_field_def numeral_2_eq_2)
qed

text \<open>
  Claim C1, amended. The six arrays are allocated filled with NaN. With derivative
  operators that return fields of the grid's shape, and for every index combination of the
  loop and each of the six arrays: the body of the \<open>try\<close> raises exactly when the
  computation of the fields or the broadcast of an assignment does; when it completes, the
  slot holds the field computed for that combination, broadcast to the slot, so it is NaN
  wherever that field is; when it raises, the slot is still filled with NaN.
\<close>

theorem slot_holds_the_stored_field_or_stays_nan:
  assumes "shape2 (ds_XLAT ds_eth) = (ny, nx)"
    and "operators_on_grid env dx dy ny nx"
    and "m_idx < length (ds_member ds_eth)" and "t_idx < length (ds_Time ds_eth)"
    and "l_idx < length LEVELS"
    and "k \<in> set var_names"
  shows
   "read_slot (init_output_arrays (length (ds_member ds_eth)) (length (ds_Time ds_eth))
       (length LEVELS) ny nx) k m_idx t_idx l_idx = Some (nan_grid ny nx) \<and>
    snd (try_slice env ds_eth ds_wind dx dy
       (init_output_arrays (length (ds_member ds_eth)) (length (ds_Time ds_eth))
          (length LEVELS) ny nx)
       m_idx (ds_member ds_eth ! m_idx) t_idx (ds_Time ds_eth ! t_idx) l_idx (LEVELS ! l_idx)) =
      (case slice_outcome env ds_eth ds_wind dx dy ny nx (ds_member ds_eth ! m_idx)
              (ds_Time ds_eth ! t_idx) (LEVELS ! l_idx) of
         Inl e \<Rightarrow> Some e | Inr stored \<Rightarrow> None) \<and>
    (case slice_outcome env ds_eth ds_wind dx dy ny nx (ds_member ds_eth ! m_idx)
            (ds_Time ds_eth ! t_idx) (LEVELS ! l_idx) of
       Inl e \<Rightarrow>
         read_slot (arrays (run_loop env ds_eth ds_wind dx dy LEVELS con)) k m_idx t_idx l_idx =
           Some (nan_grid ny nx)
     | Inr stored \<Rightarrow>
         (\<exists>fs v g. slice_fields env ds_eth ds_wind dx dy (ds_member ds_eth ! m_idx)
                      (ds_Time ds_eth ! t_idx) (LEVELS ! l_idx) = Inr fs \<and>
            map_of fs k = Some v \<and> broadcast_to ny nx v = Inr g \<and>
            read_slot (arrays (run_loop env ds_eth ds_wind dx dy LEVELS con)) k m_idx t_idx l_idx =
              Some g))"
proof -
  let ?nm = "length (ds_member ds_eth)" and ?nt = "length (ds_Time ds_eth)"
  let ?nl = "length LEVELS"
  let ?out = "slice_outcome env ds_eth ds_wind dx dy ny nx (ds_member ds_eth ! m_idx)
                (ds_Time ds_eth ! t_idx) (LEVELS ! l_idx)"
  have 1: "read_slot (init_output_arrays ?nm ?nt ?nl ny nx) k m_idx t_idx l_idx =
           Some (nan_grid ny nx)"
    using assms(6,3,4,5) by (rule read_slot_init)
  have wf: "wf_arrs ?nm ?nt ?nl ny nx (init_output_arrays ?nm ?nt ?nl ny nx)"
    by (rule init_output_arrays_wf)
  from try_slice_step [OF wf assms(3,4,5,2), of ds_eth ds_wind "ds_member ds_eth ! m_idx"
      "ds_Time ds_eth ! t_idx" "LEVELS ! l_idx"]
  have 2: "snd (try_slice env ds_eth ds_wind dx dy (init_output_arrays ?nm ?nt ?nl ny nx)
       m_idx (ds_member ds_eth ! m_idx) t_idx (ds_Time ds_eth ! t_idx) l_idx (LEVELS ! l_idx)) =
      (case ?out of Inl e \<Rightarrow> Some e | Inr stored \<Rightarrow> None)"
    by auto
  note rl = run_loop_slot [OF assms, of ds_wind con]
  have 3: "case ?out of
       Inl e \<Rightarrow>
         read_slot (arrays (run_loop env ds_eth ds_wind dx dy LEVELS con)) k m_idx t_idx l_idx =
           Some (nan_grid ny nx)
     | Inr stored \<Rightarrow>
         (\<exists>fs v g. slice_fields env ds_eth ds_wind dx dy (ds_member ds_eth ! m_idx)
                      (ds_Time ds_eth ! t_idx) (LEVELS ! l_idx) = Inr fs \<and>
            map_of fs k = Some v \<and> broadcast_to ny nx v = Inr g \<and>
            read_slot (arrays (run_loop env ds_eth ds_wind dx dy LEVELS con)) k m_idx t_idx l_idx =
              Some g)"
  proof (cases ?out)
    case (Inl e)
    with rl show ?thesis by simp
  next
    case (Inr stored)
    from slice_outcome_stored [OF Inr assms(2,6)] obtain fs v g where
      "slice_fields env ds_eth ds_wind dx dy (ds_member ds_eth ! m_idx)
          (ds_Time ds_eth ! t_idx) (LEVELS ! l_idx) = Inr fs"
      "map_of fs k = Some v" "broadcast_to ny nx v = Inr g" "map_of stored k = Some g"
      by metis
    with rl Inr show ?thesis by simp
  qed
  from 1 2 3 show ?thesis by (rule conjI [OF _ conjI])
qed

theorem slot_holds_the_stored_field_witness:
  "read_slot (arrays (run_loop (ex_env ex_field None) (ex_ds ex_field) ex_wind
       [[Fin 1000], [Fin 1000]] [[Fin 1000, Fin 1000]] [875, 850] [])) ''eth'' 0 0 1 =
     Some (nan_grid 2 2) \<and>
   read_slot (arrays (run_loop (ex_env ex_field None) (ex_ds ex_field) (ex_ds ex_field)
       [[Fin 1000], [Fin 1000]] [[Fin 1000, Fin 1000]] [875, 850] [])) ''eth'' 0 0 0 =
     Some ex_field"
proof -
  let ?env = "ex_env ex_field None" and ?ds = "ex_ds ex_field"
  let ?dx = "[[Fin 1000], [Fin 1000]]" and ?dy = "[[Fin 1000, Fin 1000]]"
  have sh: "shape2 (ds_XLAT ?ds) = (2, 2)" by (simp add: shape2_def ex_ds_def)
  have lib: "operators_on_grid ?env ?dx ?dy 2 2" by (rule ex_env_on_grid)
  have m: "0 < length (ds_member ?ds)" and t: "0 < length (ds_Time ?ds)"
    by (simp_all add: ex_ds_def)
  have l0: "0 < length [875, 850 :: int]" and l1: "1 < length [875, 850 :: int]" by simp_all
  have k: "''eth'' \<in> set var_names" by (simp add: var_names_def)
  have mem: "ds_member ?ds ! 0 = 1" and tim: "ds_Time ?ds ! 0 = 0" by (simp_all add: ex_ds_def)
  have bc: "broadcast_to 2 2 ex_field = Inr ex_field"
    by (rule broadcast_to_has_shape) (simp add: has_shape_def ex_field_def)
  from slot_holds_the_stored_field_or_stays_nan [OF sh lib m t l1 k, of ex_wind "[]"]
  have a: "read_slot (arrays (run_loop ?env ?ds ex_wind ?dx ?dy [875, 850] [])) ''eth'' 0 0 1 =
           Some (nan_grid 2 2)"
    by (simp add: mem tim ex_slice_outcome_raises)
  have hs: "has_shape 2 2 ex_field" by (simp add: has_shape_def ex_field_def)
  note c = slot_holds_the_stored_field_or_stays_nan [OF sh lib m t l0 k, of ?ds "[]",
      THEN conjunct2, THEN conjunct2,
      unfolded mem tim nth_Cons_0 ex_slice_outcome_numbers sum.case ex_slice_fields [OF hs]]
  from c obtain fs v g where
    fs: "Inr [(''eth'', ex_field), (''dtedx'', nan_where ex_field), (''dtedy'', nan_where ex_field),
          (''absthe'', map (\<lambda>(r, s). map (\<lambda>(x, y). hypot x y) (zip r s))
                          (zip (nan_where ex_field) (nan_where ex_field))),
          (''divg'', nan_where ex_field), (''vort'', nan_where ex_field)] =
         (Inr fs :: exn + (string \<times> grid) list)"
    and v: "map_of fs ''eth'' = Some v" and g: "broadcast_to 2 2 v = Inr g"
    and r: "read_slot (arrays (run_loop ?env ?ds ?ds ?dx ?dy [875, 850] [])) ''eth'' 0 0 0 = Some g"
    by (elim exE conjE)
  from fs v have "v = ex_field" by auto
  with g bc have "g = ex_field" by simp
  with r have b: "read_slot (arrays (run_loop ?env ?ds ?ds ?dx ?dy [875, 850] [])) ''eth'' 0 0 0 =
           Some ex_field"
    by simp
  from a b show ?thesis by simp
qed

subsection \<open>Negated winds\<close>

lemma fl_neg_simps [simp]: "fl_neg NaN = NaN" "fl_neg (Fin a) = Fin (- a)"
  by (simp_all add: fl_neg_def)

lemma weighted3_neg:
  "weighted3 w0 (fl_neg a) w1 (fl_neg b) w2 (fl_neg c) = fl_neg (weighted3 w0 a w1 b w2 c)"
  by (cases w0; cases a; cases w1; cases b; cases w2; cases c) (simp_all add: weighted3_def)

lemma fl_add_neg: "fl_op2 (\<lambda>a b. a + b) (fl_neg x) (fl_neg y) = fl_neg (fl_op2 (\<lambda>a b. a + b) x y)"
  by (cases x; cases y) simp_all

lemma fl_sub_neg: "fl_op2 (\<lambda>a b. a - b) (fl_neg x) (fl_neg y) = fl_neg (fl_op2 (\<lambda>a b. a - b) x y)"
  by (cases x; cases y) simp_all

lemma first_derivative_neg:
  "first_derivative (map fl_neg f) delta =
     (case first_derivative f delta of Inl e \<Rightarrow> Inl e | Inr d \<Rightarrow> Inr (map fl_neg d))"
proof (cases "length f < 3 \<or> length delta \<noteq> length f - 1")
  case True
  then show ?thesis by (auto simp: first_derivative_def)
next
  case False
  then have n: "3 \<le> length f" by simp
  have m: "map fl_neg f ! k = fl_neg (f ! k)" if "k < length f" for k
    using that by simp
  have nth: "map fl_neg f ! 0 = fl_neg (f ! 0)" "map fl_neg f ! 1 = fl_neg (f ! 1)"
    "map fl_neg f ! 2 = fl_neg (f ! 2)"
    "map fl_neg f ! (length f - 3) = fl_neg (f ! (length f - 3))"
    "map fl_neg f ! (length f - 2) = fl_neg (f ! (length f - 2))"
    "map fl_neg f ! (length f - 1) = fl_neg (f ! (length f - 1))"
    using n by (auto intro!: m)
  have inner: "map fl_neg f ! (i - 1) = fl_neg (f ! (i - 1))" "map fl_neg f ! i = fl_neg (f ! i)"
    "map fl_neg f ! Suc i = fl_neg (f ! Suc i)" if "i < length f" "i \<noteq> length f - 1" for i
    using that by (auto intro!: m)
  from False show ?thesis
    unfolding first_derivative_def Let_def
    by (simp add: nth inner weighted3_neg split: prod.splits)
qed

lemma sequence_exn_mapped:
  assumes "\<And>x. x \<in> set xs \<Longrightarrow> f' x = (case f x of Inl e \<Rightarrow> Inl e | Inr y \<Rightarrow> Inr (g y))"
  shows "sequence_exn (map f' xs) =
     (case sequence_exn (map f xs) of Inl e \<Rightarrow> Inl e | Inr ys \<Rightarrow> Inr (map g ys))"
  using assms
proof (induction xs)
  case Nil
  then show ?case by simp
next
  case (Cons x xs)
  then have "sequence_exn (map f' xs) =
      (case sequence_exn (map f xs) of Inl e \<Rightarrow> Inl e | Inr ys \<Rightarrow> Inr (map g ys))" by simp
  moreover have "f' x = (case f x of Inl e \<Rightarrow> Inl e | Inr y \<Rightarrow> Inr (g y))"
    using Cons.prems by simp
  ultimately show ?case by (simp split: sum.splits)
qed

lemma derivative_x_neg:
  "derivative_x (neg_grid f) dx =
     (case derivative_x f dx of Inl e \<Rightarrow> Inl e | Inr g \<Rightarrow> Inr (neg_grid g))"
proof (cases "length f = length dx")
  case False
  then show ?thesis by (simp add: derivative_x_def neg_grid_def)
next
  case True
  have "zip (map (map fl_neg) f) dx = map (\<lambda>(r, d). (map fl_neg r, d)) (zip f dx)"
    by (simp add: zip_map1)
  then have "sequence_exn (map (\<lambda>(r, d). first_derivative r d) (zip (map (map fl_neg) f) dx)) =
      sequence_exn (map (\<lambda>(r, d). first_derivative (map fl_neg r) d) (zip f dx))"
    by (simp add: case_prod_unfold comp_def)
  also have "\<dots> = (case sequence_exn (map (\<lambda>(r, d). first_derivative r d) (zip f dx)) of
      Inl e \<Rightarrow> Inl e | Inr ys \<Rightarrow> Inr (map (map fl_neg) ys))"
    by (rule sequence_exn_mapped) (simp add: case_prod_unfold first_derivative_neg)
  finally show ?thesis using True unfolding derivative_x_def neg_grid_def by simp
qed

lemma derivative_y_neg:
  "derivative_y (neg_grid f) dy =
     (case derivative_y f dy of Inl e \<Rightarrow> Inl e | Inr g \<Rightarrow> Inr (neg_grid g))"
proof -
  have t: "transpose (neg_grid g) = neg_grid (transpose g)" for g
    by (simp add: neg_grid_def transpose_map_map)
  show ?thesis
    unfolding derivative_y_def t derivative_x_neg
    by (cases "derivative_x (transpose f) (transpose dy)") (simp_all add: t)
qed

lemma grid_map2_neg:
  assumes "\<And>x y. h (fl_neg x) (fl_neg y) = fl_neg (h x y)"
  shows "grid_map2 h (neg_grid a) (neg_grid b) = neg_grid (grid_map2 h a b)"
  by (simp add: grid_map2_def neg_grid_def zip_map_map case_prod_unfold assms comp_def)

lemma add_fields_neg:
  assumes "\<And>x y. h (fl_neg x) (fl_neg y) = fl_neg (h x y)"
  shows "add_fields h (neg_grid a) (neg_grid b) =
     (case add_fields h a b of Inl e \<Rightarrow> Inl e | Inr g \<Rightarrow> Inr (neg_grid g))"
proof -
  have "map length (neg_grid g) = map length g" for g
    by (simp add: neg_grid_def comp_def)
  moreover have "grid_map2 h (neg_grid a) (neg_grid b) = neg_grid (grid_map2 h a b)"
    using assms by (rule grid_map2_neg)
  ultimately show ?thesis by (simp add: add_fields_def)
qed

lemma add_fields_plus_neg:
  "add_fields (fl_op2 (\<lambda>a b. a + b)) (neg_grid a) (neg_grid b) =
     (case add_fields (fl_op2 (\<lambda>a b. a + b)) a b of Inl e \<Rightarrow> Inl e | Inr g \<Rightarrow> Inr (neg_grid g))"
  by (rule add_fields_neg) (rule fl_add_neg)

lemma add_fields_minus_neg:
  "add_fields (fl_op2 (\<lambda>a b. a - b)) (neg_grid a) (neg_grid b) =
     (case add_fields (fl_op2 (\<lambda>a b. a - b)) a b of Inl e \<Rightarrow> Inl e | Inr g \<Rightarrow> Inr (neg_grid g))"
  by (rule add_fields_neg) (rule fl_sub_neg)

text \<open>
  Claim C6, on the modelled operators: negating both wind components negates the
  divergence and negates the vorticity, on the same grid spacing; where the operators
  raise (an axis of fewer than three points, fields of different shapes) they raise the
  same exception for the negated winds.
\<close>

theorem negated_winds_negate_divergence_and_vorticity:
  "fd_divergence (neg_grid u) (neg_grid v) dx dy =
     (case fd_divergence u v dx dy of Inl e \<Rightarrow> Inl e | Inr g \<Rightarrow> Inr (neg_grid g))
   \<and> fd_vorticity (neg_grid u) (neg_grid v) dx dy =
     (case fd_vorticity u v dx dy of Inl e \<Rightarrow> Inl e | Inr g \<Rightarrow> Inr (neg_grid g))"
proof
  show "fd_divergence (neg_grid u) (neg_grid v) dx dy =
     (case fd_divergence u v dx dy of Inl e \<Rightarrow> Inl e | Inr g \<Rightarrow> Inr (neg_grid g))"
    unfolding fd_divergence_def derivative_x_neg derivative_y_neg
    by (cases "derivative_x u dx"; cases "derivative_y v dy")
      (simp_all add: add_fields_plus_neg)
  show "fd_vorticity (neg_grid u) (neg_grid v) dx dy =
     (case fd_vorticity u v dx dy of Inl e \<Rightarrow> Inl e | Inr g \<Rightarrow> Inr (neg_grid g))"
    unfolding fd_vorticity_def derivative_x_neg derivative_y_neg
    by (cases "derivative_x v dx"; cases "derivative_y u dy")
      (simp_all add: add_fields_minus_neg)
qed

lemma ex_divergence: "fd_divergence ex_u ex_v ex_dx3 ex_dy3 =
    Inr [[Fin (3 / 2), Fin 1, Fin (9 / 2)],
         [Fin (11 / 2), Fin 2, Fin (- (3 / 2))], [Fin 2, Fin (1 / 2), Fin 0]]"
  by code_simp

lemma ex_vorticity: "fd_vorticity ex_u ex_v ex_dx3 ex_dy3 =
    Inr [[Fin (11 / 4), Fin (- (1 / 2)), Fin (- (1 / 4))],
         [Fin (- (25 / 12)), Fin (- (1 / 6)), Fin (35 / 12)],
         [Fin (- (103 / 12)), Fin (- (13 / 6)), Fin (29 / 12)]]"
  by code_simp

theorem negated_winds_witness:
  "fd_divergence (neg_grid ex_u) (neg_grid ex_v) ex_dx3 ex_dy3 =
     Inr [[Fin (- (3 / 2)), Fin (- 1), Fin (- (9 / 2))],
          [Fin (- (11 / 2)), Fin (- 2), Fin (3 / 2)], [Fin (- 2), Fin (- (1 / 2)), Fin 0]]
   \<and> fd_vorticity (neg_grid ex_u) (neg_grid ex_v) ex_dx3 ex_dy3 =
     Inr [[Fin (- (11 / 4)), Fin (1 / 2), Fin (1 / 4)],
          [Fin (25 / 12), Fin (1 / 6), Fin (- (35 / 12))],
          [Fin (103 / 12), Fin (13 / 6), Fin (- (29 / 12))]]"
  using negated_winds_negate_divergence_and_vorticity [of ex_u ex_v ex_dx3 ex_dy3]
  by (simp add: ex_divergence ex_vorticity neg_grid_def)

section \<open>Properties of ana_duration_hours\<close>

subsection \<open>The frequency table\<close>

lemma length_dropna_le: "length (dropna col) \<le> length col"
  by (induction col rule: dropna.induct) simp_all

lemma length_dropna_no_nan: "NaN \<notin> set col \<Longrightarrow> length (dropna col) = length col"
  by (induction col rule: dropna.induct) simp_all

lemma sum_counts_remdups:
  "sum_list (map (count_list vals) (remdups vals)) = length vals"
proof -
  have "sum_list (map (count_list vals) (remdups vals)) = sum (count_list vals) (set vals)"
    using sum_list_distinct_conv_sum_set [of "remdups vals" "count_list vals"] by simp
  also have "\<dots> = length vals"
    by (rule sum_count_set) simp_all
  finally show ?thesis .
qed

lemma sum_list_sort_key_distinct:
  fixes g :: "'a \<Rightarrow> 'b::comm_monoid_add"
  assumes "distinct xs"
  shows "sum_list (map g (sort_key f xs)) = sum_list (map g xs)"
proof -
  have "sum_list (map g (sort_key f xs)) = sum g (set (sort_key f xs))"
    using assms by (simp add: sum_list_distinct_conv_sum_set)
  also have "\<dots> = sum_list (map g xs)"
    using assms by (simp add: sum_list_distinct_conv_sum_set)
  finally show ?thesis .
qed

lemma duration_counts_sum:
  "sum_list (map snd (duration_counts col)) = length (dropna col)"
proof -
  let ?vals = "dropna col"
  let ?tab = "map (\<lambda>v. (v, count_list ?vals v)) (remdups ?vals)"
  have d: "distinct ?tab" by (simp add: distinct_map inj_on_def)
  then have d': "distinct (sort_key (\<lambda>(v, c). - int c) ?tab)" by simp
  have "sum_list (map snd (duration_counts col)) = sum_list (map snd ?tab)"
    unfolding duration_counts_def sort_index_def value_counts_def Let_def
    by (simp only: sum_list_sort_key_distinct [OF d'] sum_list_sort_key_distinct [OF d])
  also have "\<dots> = sum_list (map (count_list ?vals) (remdups ?vals))"
    by (simp add: comp_def)
  also have "\<dots> = length ?vals" by (rule sum_counts_remdups)
  finally show ?thesis .
qed

lemma distribution_lines_counts:
  "map (fst \<circ> snd) (distribution_lines col) = map snd (duration_counts col)"
  by (simp add: distribution_lines_def comp_def split_beta)

lemma sum_percentages:
  "sum_list (map (\<lambda>(d, c). real c / n * 100) xs) = real (sum_list (map snd xs)) / n * 100"
  by (induction xs) (auto simp: add_divide_distrib distrib_right)

lemma distribution_lines_percentages:
  "sum_list (map (snd \<circ> snd) (distribution_lines col)) =
   real (length (dropna col)) / real (length col) * 100"
proof -
  have "map (snd \<circ> snd) (distribution_lines col) =
        map (\<lambda>(d, c). real c / real (length col) * 100) (duration_counts col)"
    by (simp add: distribution_lines_def comp_def split_beta)
  then show ?thesis by (simp only: sum_percentages duration_counts_sum)
qed

lemma distribution_lines_example:
  "distribution_lines [Fin 10, Fin 10, Fin 20, Fin 40] = [(10, 2, 50), (20, 1, 25), (40, 1, 25)]"
  by (simp add: distribution_lines_def duration_counts_def sort_index_def value_counts_def)

text \<open>
  Claim C4, as stated, fails: a row whose duration is missing is counted in no group, so
  the counts of a table with such a row do not sum to its number of rows, and the
  percentages do not sum to 100.
\<close>

theorem counts_of_a_table_with_a_missing_duration:
  "sum_list (map (fst \<circ> snd) (distribution_lines [Fin 10, NaN])) = 1 \<and>
   length [Fin 10, NaN] = 2 \<and>
   sum_list (map (snd \<circ> snd) (distribution_lines [Fin 10, NaN])) = 50"
  by (simp add: distribution_lines_def duration_counts_def sort_index_def value_counts_def)

text \<open>
  Claim C4, amended. The counts of the frequency table sum to the number of rows whose
  duration is not missing; for a table with no missing duration they sum to the number of
  rows, and if the table also has a row the percentages sum to 100 (in exact arithmetic).
  For the durations 10, 10, 20, 40 the lines are 10 hours, 2 cases, 50 percent; 20 hours,
  1 case, 25 percent; 40 hours, 1 case, 25 percent.
\<close>

theorem frequency_table_sums:
  "sum_list (map (fst \<circ> snd) (distribution_lines col)) = length (dropna col) \<and>
   (NaN \<notin> set col \<longrightarrow> sum_list (map (fst \<circ> snd) (distribution_lines col)) = length col) \<and>
   (NaN \<notin> set col \<and> col \<noteq> [] \<longrightarrow>
      sum_list (map (snd \<circ> snd) (distribution_lines col)) = 100) \<and>
   distribution_lines [Fin 10, Fin 10, Fin 20, Fin 40] =
     [(10, 2, 50), (20, 1, 25), (40, 1, 25)]"
proof -
  have 1: "sum_list (map (fst \<circ> snd) (distribution_lines col)) = length (dropna col)"
    by (simp only: distribution_lines_counts duration_counts_sum)
  have 2: "sum_list (map (fst \<circ> snd) (distribution_lines col)) = length col"
    if "NaN \<notin> set col"
    using 1 that by (simp add: length_dropna_no_nan)
  have 3: "sum_list (map (snd \<circ> snd) (distribution_lines col)) = 100"
    if "NaN \<notin> set col \<and> col \<noteq> []"
    using that by (simp add: distribution_lines_percentages length_dropna_no_nan)
  from 1 2 3 distribution_lines_example show ?thesis by blast
qed

theorem frequency_table_sums_witness:
  "NaN \<notin> set ex_durations \<and> ex_durations \<noteq> [] \<and>
   sum_list (map (fst \<circ> snd) (distribution_lines ex_durations)) = 4 \<and>
   sum_list (map (snd \<circ> snd) (distribution_lines ex_durations)) = 100"
proof -
  have a: "NaN \<notin> set ex_durations" and b: "ex_durations \<noteq> []" and c: "length ex_durations = 4"
    by (simp_all add: ex_durations_def)
  from frequency_table_sums [of ex_durations] a b c show ?thesis by simp
qed

subsection \<open>The scatter points\<close>

text \<open>
  Claim C8. The scatter call does not depend on the state the generator had before line
  93: two runs on the same table, whatever their generator states, end in the same state
  and pass the same arguments to the scatter call. When the call is made, the x positions
  are the sample drawn in the state of seed 42 and the y positions are the column itself,
  row by row.
\<close>

theorem scatter_is_reproducible:
  "jittered_scatter rng g col = jittered_scatter rng g' col \<and>
   (\<forall>call. snd (jittered_scatter rng g col) = Inr call \<longrightarrow>
      sc_x call = fst (normal_draw rng (seed_state rng 42) 1 (15 / 1000) (length col)) \<and>
      sc_y call = col)"
  by (auto simp: jittered_scatter_def Let_def split: prod.splits sum.splits if_splits)

theorem scatter_is_reproducible_witness:
  "snd (jittered_scatter ex_rng 7 ex_durations) = snd (jittered_scatter ex_rng 99 ex_durations) \<and>
   (\<exists>call. snd (jittered_scatter ex_rng 7 ex_durations) = Inr call \<and>
      sc_x call = [1 - 15 / 1000, 1, 1 + 15 / 1000, 1 - 15 / 1000] \<and>
      sc_y call = [Fin 10, Fin 10, Fin 20, Fin 40])"
proof -
  have "snd (jittered_scatter ex_rng 7 ex_durations) =
        Inr \<lparr>sc_x = [1 - 15 / 1000, 1, 1 + 15 / 1000, 1 - 15 / 1000],
             sc_y = [Fin 10, Fin 10, Fin 20, Fin 40], sc_c = [0, 0, 1 / 2, 1]\<rparr>"
    by code_simp
  with scatter_is_reproducible [of ex_rng 7 ex_durations 99] show ?thesis by simp
qed

subsection \<open>The significance test of a negated sample\<close>

lemma fl_neg_eq_NaN [simp]: "fl_neg x = NaN \<longleftrightarrow> x = NaN"
  by (cases x) simp_all

lemma NaN_in_negated: "NaN \<in> set (map fl_neg a) \<longleftrightarrow> NaN \<in> set a"
proof -
  have "NaN \<in> fl_neg ` S \<longleftrightarrow> NaN \<in> S" for S
  proof
    assume "NaN \<in> fl_neg ` S"
    then obtain x where "x \<in> S" "fl_neg x = NaN" by (auto dest: sym)
    then show "NaN \<in> S" by simp
  next
    assume "NaN \<in> S"
    then have "fl_neg NaN \<in> fl_neg ` S" by (rule imageI)
    then show "NaN \<in> fl_neg ` S" by simp
  qed
  then show ?thesis by simp
qed

lemma dropna_negated: "dropna (map fl_neg a) = map uminus (dropna a)"
proof (induction a)
  case Nil
  then show ?case by simp
next
  case (Cons x a)
  then show ?case by (cases x) simp_all
qed

lemma sum_list_negated: "sum_list (map uminus xs) = - sum_list (xs :: real list)"
  by (induction xs) simp_all

lemma sample_mean_negated: "sample_mean (map uminus xs) = - sample_mean xs"
  by (simp add: sample_mean_def sum_list_negated)

lemma sample_var_negated: "sample_var (map uminus xs) = sample_var xs"
proof -
  have "(- x - - sample_mean xs)\<^sup>2 = (x - sample_mean xs)\<^sup>2" for x
    by (simp add: power2_commute)
  then show ?thesis
    by (simp add: sample_var_def sample_mean_negated comp_def)
qed

lemma ttest_1samp_negated:
  "ttest_1samp sf (map fl_neg a) (- popmean) =
     (tneg (fst (ttest_1samp sf a popmean)), snd (ttest_1samp sf a popmean))"
proof -
  define d where "d = sample_mean (dropna a) - popmean"
  define den where "den = sqrt (sample_var (dropna a) / real (length (dropna a)))"
  define n where "n = length (dropna a)"
  have neg: "- sample_mean (dropna a) - - popmean = - d"
    by (simp add: d_def)
  have r: "ttest_1samp sf a popmean =
      (if NaN \<in> set a \<or> length a < 2 then (TNaN, NaN)
       else if den = 0 then (if d = 0 then (TNaN, NaN) else (TInf (0 < d), Fin 0))
       else (TFin (d / den), Fin (2 * sf (n - 1) \<bar>d / den\<bar>)))"
    by (simp add: ttest_1samp_def Let_def d_def den_def n_def)
  have r': "ttest_1samp sf (map fl_neg a) (- popmean) =
      (if NaN \<in> set a \<or> length a < 2 then (TNaN, NaN)
       else if den = 0 then (if - d = 0 then (TNaN, NaN) else (TInf (0 < - d), Fin 0))
       else (TFin (- d / den), Fin (2 * sf (n - 1) \<bar>- d / den\<bar>)))"
    unfolding ttest_1samp_def Let_def NaN_in_negated dropna_negated sample_mean_negated
      sample_var_negated length_map neg
    by (simp only: den_def n_def)
  have a: "\<bar>- d / den\<bar> = \<bar>d / den\<bar>" by simp
  show ?thesis
    unfolding r r' a by (auto simp: tneg_def)
qed

lemma ttest_1samp_degenerate:
  assumes "NaN \<in> set a \<or> length a < 2
      \<or> sample_var (dropna a) = 0 \<and> sample_mean (dropna a) = popmean"
  shows "ttest_1samp sf a popmean = (TNaN, NaN)"
proof (cases "NaN \<in> set a \<or> length a < 2")
  case True
  then show ?thesis by (simp add: ttest_1samp_def)
next
  case False
  with assms have "sample_var (dropna a) = 0" "sample_mean (dropna a) = popmean" by auto
  with False show ?thesis by (simp add: ttest_1samp_def)
qed

lemma dropna_complete: "NaN \<notin> set a \<Longrightarrow> length (dropna a) = length a"
proof (induction a)
  case Nil
  then show ?case by simp
next
  case (Cons x a)
  then show ?case by (cases x) simp_all
qed

lemma ttest_1samp_finite:
  assumes "NaN \<notin> set a" and "2 \<le> length a" and "sample_var (dropna a) \<noteq> 0"
  shows "ttest_1samp sf a popmean =
     (TFin ((sample_mean (dropna a) - popmean) / sqrt (sample_var (dropna a) / real (length a))),
      Fin (2 * sf (length a - 1)
        \<bar>(sample_mean (dropna a) - popmean) / sqrt (sample_var (dropna a) / real (length a))\<bar>))"
proof -
  have n: "length (dropna a) = length a" using assms(1) by (rule dropna_complete)
  have "real (length a) \<noteq> 0" using assms(2) by auto
  then have "sqrt (sample_var (dropna a) / real (length a)) \<noteq> 0"
    using assms(3) by simp
  then show ?thesis
    using assms(1,2) unfolding ttest_1samp_def Let_def n by simp
qed

lemma ttest_1samp_infinite:
  assumes "NaN \<notin> set a" and "2 \<le> length a" and "sample_var (dropna a) = 0"
    and "sample_mean (dropna a) \<noteq> popmean"
  shows "ttest_1samp sf a popmean = (TInf (popmean < sample_mean (dropna a)), Fin 0)"
  using assms unfolding ttest_1samp_def Let_def by simp

text \<open>
  Claim C7 does not hold for every sample. A sample of one case has no variance estimate:
  the statistic and the p-value are \<open>nan\<close>, for the sample and for the negated sample,
  so that the statistic has no sign to flip and the two p-values do not compare equal.
\<close>

theorem single_case_sample_has_no_statistic:
  "ttest_1samp ex_sf [Fin 30] tag_duration = (TNaN, NaN)
   \<and> ttest_1samp ex_sf (map fl_neg [Fin 30]) (- tag_duration) = (TNaN, NaN)
   \<and> \<not> (opposite_sign (fst (ttest_1samp ex_sf [Fin 30] tag_duration))
            (fst (ttest_1samp ex_sf (map fl_neg [Fin 30]) (- tag_duration)))
        \<and> float_eq (snd (ttest_1samp ex_sf [Fin 30] tag_duration))
            (snd (ttest_1samp ex_sf (map fl_neg [Fin 30]) (- tag_duration))))"
  by (simp add: ttest_1samp_def opposite_sign_def float_eq_def)

text \<open>
  Claim C7, amended, on the modelled test: for a sample of at least two values, none of
  them missing, which has a variance or a mean other than the reference value, the test
  of the negated sample against the negated reference value returns the statistic of
  opposite sign and the same p-value. Every other sample gives \<open>nan\<close> twice, for both
  tests.
\<close>

theorem negated_sample_flips_the_statistic_and_keeps_the_p_value:
  "(NaN \<notin> set a \<and> 2 \<le> length a
      \<and> (sample_var (dropna a) \<noteq> 0 \<or> sample_mean (dropna a) \<noteq> popmean) \<longrightarrow>
      opposite_sign (fst (ttest_1samp sf a popmean))
        (fst (ttest_1samp sf (map fl_neg a) (- popmean)))
      \<and> float_eq (snd (ttest_1samp sf a popmean))
        (snd (ttest_1samp sf (map fl_neg a) (- popmean))))
   \<and> (NaN \<in> set a \<or> length a < 2
      \<or> sample_var (dropna a) = 0 \<and> sample_mean (dropna a) = popmean \<longrightarrow>
      ttest_1samp sf a popmean = (TNaN, NaN)
      \<and> ttest_1samp sf (map fl_neg a) (- popmean) = (TNaN, NaN))"
proof (intro conjI impI)
  assume deg: "NaN \<in> set a \<or> length a < 2
      \<or> sample_var (dropna a) = 0 \<and> sample_mean (dropna a) = popmean"
  then show r: "ttest_1samp sf a popmean = (TNaN, NaN)" by (rule ttest_1samp_degenerate)
  show "ttest_1samp sf (map fl_neg a) (- popmean) = (TNaN, NaN)"
    unfolding ttest_1samp_negated r by (simp add: tneg_def)
next
  assume ok: "NaN \<notin> set a \<and> 2 \<le> length a
      \<and> (sample_var (dropna a) \<noteq> 0 \<or> sample_mean (dropna a) \<noteq> popmean)"
  have "opposite_sign (fst (ttest_1samp sf a popmean)) (tneg (fst (ttest_1samp sf a popmean)))
      \<and> float_eq (snd (ttest_1samp sf a popmean)) (snd (ttest_1samp sf a popmean))"
  proof (cases "sample_var (dropna a) = 0")
    case True
    with ok have "ttest_1samp sf a popmean = (TInf (popmean < sample_mean (dropna a)), Fin 0)"
      by (intro ttest_1samp_infinite) auto
    then show ?thesis by (simp add: opposite_sign_def float_eq_def tneg_def)
  next
    case False
    with ok have "\<exists>t p. ttest_1samp sf a popmean = (TFin t, Fin p)"
      by (simp add: ttest_1samp_finite)
    then show ?thesis by (auto simp: opposite_sign_def float_eq_def tneg_def)
  qed
  then show "opposite_sign (fst (ttest_1samp sf a popmean))
        (fst (ttest_1samp sf (map fl_neg a) (- popmean)))"
    and "float_eq (snd (ttest_1samp sf a popmean))
        (snd (ttest_1samp sf (map fl_neg a) (- popmean)))"
    unfolding ttest_1samp_negated by simp_all
qed

lemma ex_ttest: "ttest_1samp ex_sf [Fin 41, Fin 45] tag_duration = (TFin (1 / 2), Fin (2 / 3))"
  by (simp add: ttest_1samp_def sample_mean_def sample_var_def tag_duration_def ex_sf_def
      power2_eq_square)

theorem negated_sample_witness:
  "ttest_1samp ex_sf [Fin 41, Fin 45] tag_duration = (TFin (1 / 2), Fin (2 / 3))
   \<and> ttest_1samp ex_sf [Fin (- 41), Fin (- 45)] (- tag_duration) = (TFin (- (1 / 2)), Fin (2 / 3))
   \<and> ttest_1samp ex_sf [Fin 42, Fin 42] tag_duration = (TNaN, NaN)
   \<and> ttest_1samp ex_sf [Fin (- 42), Fin (- 42)] (- tag_duration) = (TNaN, NaN)"
proof -
  have v: "sample_var [41, 45] \<noteq> 0" "sample_var [42, 42] = 0" "sample_mean [42, 42] = 42"
    by (simp_all add: sample_var_def sample_mean_def power2_eq_square)
  from negated_sample_flips_the_statistic_and_keeps_the_p_value
    [of "[Fin 41, Fin 45]" tag_duration ex_sf] v(1)
  have "opposite_sign (TFin (1 / 2)) (fst (ttest_1samp ex_sf [Fin (- 41), Fin (- 45)] (- tag_duration)))
      \<and> float_eq (Fin (2 / 3)) (snd (ttest_1samp ex_sf [Fin (- 41), Fin (- 45)] (- tag_duration)))"
    by (simp add: ex_ttest)
  then have 1: "ttest_1samp ex_sf [Fin (- 41), Fin (- 45)] (- tag_duration) =
      (TFin (- (1 / 2)), Fin (2 / 3))"
    by (cases "ttest_1samp ex_sf [Fin (- 41), Fin (- 45)] (- tag_duration)")
      (auto simp: opposite_sign_def float_eq_def split: tval.splits fl.splits)
  from negated_sample_flips_the_statistic_and_keeps_the_p_value
    [of "[Fin 42, Fin 42]" tag_duration ex_sf] v(2,3)
  have 2: "ttest_1samp ex_sf [Fin 42, Fin 42] tag_duration = (TNaN, NaN)
      \<and> ttest_1samp ex_sf [Fin (- 42), Fin (- 42)] (- tag_duration) = (TNaN, NaN)"
    by (simp add: tag_duration_def)
  from ex_ttest 1 2 show ?thesis by simp
qed

section \<open>Properties of frontogenesis_tendency_comparison\<close>

subsection \<open>Selection by a mask of equality with one time\<close>

lemma mask_filter_absent:
  assumes "length ts = length a" and "x \<notin> set ts"
  shows "map snd (filter fst (zip (map (\<lambda>t. t = x) ts) a)) = []"
  using assms by (induction ts a rule: list_induct2) auto


lemma mask_filter_single:
  assumes "length ts = length a" and "i < length ts" and "ts ! i = x"
    and "count_list ts x = 1"
  shows "map snd (filter fst (zip (map (\<lambda>t. t = x) ts) a)) = [a ! i]"
  using assms
proof (induction ts a arbitrary: i rule: list_induct2)
  case Nil
  then show ?case by simp
next
  case (Cons t ts g a)
  show ?case
  proof (cases i)
    case 0
    with Cons.prems have tx: "t = x" by simp
    with Cons.prems(3) have "count_list ts x = 0" by simp
    then have "x \<notin> set ts" by (simp add: count_list_0_iff)
    with Cons.hyps tx show ?thesis by (simp add: 0 mask_filter_absent)
  next
    case (Suc k)
    with Cons.prems have k: "k < length ts" and xk: "ts ! k = x" by simp_all
    then have "x \<in> set ts" by auto
    then have "count_list ts x \<noteq> 0" by (simp add: count_list_0_iff)
    with Cons.prems(3) have ne: "t \<noteq> x" and c: "count_list ts x = 1"
      by (auto split: if_splits)
    from Cons.IH [OF k xk c] ne show ?thesis by (simp add: Suc)
  qed
qed

lemma mask_select_single:
  assumes "length ts = length a" and "i < length ts" and "ts ! i = x"
    and "count_list ts x = 1"
  shows "mask_select (map (\<lambda>t. t = x) ts) a = Inr [a ! i]"
  using assms by (simp add: mask_select_def mask_filter_single)



subsection \<open>The magnitude of the gradient\<close>

lemma grid_op2_same_shape:
  assumes "has_shape ny nx a" and "has_shape ny nx b"
  shows "grid_op2 f a b = Inr (grid_map2 f a b)"
proof -
  from assms have la: "length a = ny" and lb: "length b = ny"
    and ra: "\<forall>r \<in> set a. length r = nx" and rb: "\<forall>r \<in> set b. length r = nx"
    by (simp_all add: has_shape_def list_all_iff)
  have row: "zip_bcast (\<lambda>x y. Inr (f x y)) r s = Inr (map (\<lambda>(x, y). f x y) (zip r s))"
    if "(r, s) \<in> set (zip a b)" for r s
  proof -
    from that have "r \<in> set a" "s \<in> set b" by (auto dest: set_zip_leftD set_zip_rightD)
    with ra rb have "length r = length s" by simp
    then show ?thesis by (rule zip_bcast_same_length) simp
  qed
  show ?thesis unfolding grid_op2_def grid_map2_def
    using la lb row by (intro zip_bcast_same_length) auto
qed

lemma grid_map2_has_shape:
  assumes "has_shape ny nx a" and "has_shape ny nx b"
  shows "has_shape ny nx (grid_map2 f a b)"
proof -
  from assms have la: "length a = ny" and lb: "length b = ny"
    and ra: "\<forall>r \<in> set a. length r = nx" and rb: "\<forall>r \<in> set b. length r = nx"
    by (simp_all add: has_shape_def list_all_iff)
  have "length (map (\<lambda>(x, y). f x y) (zip r s)) = nx" if "(r, s) \<in> set (zip a b)" for r s
  proof -
    from that have "r \<in> set a" "s \<in> set b" by (auto dest: set_zip_leftD set_zip_rightD)
    with ra rb show ?thesis by simp
  qed
  with la lb show ?thesis by (auto simp: has_shape_def list_all_iff grid_map2_def)
qed

lemma gradient_magnitude_ok:
  assumes g: "mp_geospatial_gradient env (in_theta inp) (in_dx inp) (in_dy inp) =
              Inr (dtheta_dx, dtheta_dy)"
    and lx: "length dtheta_dx = n" and ly: "length dtheta_dy = n"
    and sx: "list_all (has_shape ny nx) dtheta_dx" and sy: "list_all (has_shape ny nx) dtheta_dy"
  shows "gradient_magnitude env inp =
           Inr (map (\<lambda>(a, b). grid_map2 hypot a b) (zip dtheta_dx dtheta_dy))"
proof -
  have "grid_op2 hypot a b = Inr (grid_map2 hypot a b)"
    if "(a, b) \<in> set (zip dtheta_dx dtheta_dy)" for a b
  proof -
    from that have "a \<in> set dtheta_dx" "b \<in> set dtheta_dy"
      by (auto dest: set_zip_leftD set_zip_rightD)
    with sx sy have "has_shape ny nx a" "has_shape ny nx b" by (simp_all add: list_all_iff)
    then show ?thesis by (rule grid_op2_same_shape)
  qed
  then have "zip_bcast (grid_op2 hypot) dtheta_dx dtheta_dy =
             Inr (map (\<lambda>(a, b). grid_map2 hypot a b) (zip dtheta_dx dtheta_dy))"
    using lx ly by (intro zip_bcast_same_length) auto
  then show ?thesis by (simp add: gradient_magnitude_def g)
qed

subsection \<open>The tendency when both neighbouring times are present, and when one is not\<close>

lemma map_grid_map2:
  "map (map h) (grid_map2 f a b) = grid_map2 (\<lambda>x y. h (f x y)) a b"
  by (simp add: grid_map2_def comp_def split_beta)

lemma magnitude_nth:
  assumes "length dtheta_dx = n" and "length dtheta_dy = n" and "k < n"
  shows "map (\<lambda>(a, b). grid_map2 hypot a b) (zip dtheta_dx dtheta_dy) ! k =
         grid_map2 hypot (dtheta_dx ! k) (dtheta_dy ! k)"
  using assms by simp

lemma magnitude_has_shape:
  assumes "length dtheta_dx = n" and "length dtheta_dy = n" and "k < n"
    and "list_all (has_shape ny nx) dtheta_dx" and "list_all (has_shape ny nx) dtheta_dy"
  shows "has_shape ny nx (grid_map2 hypot (dtheta_dx ! k) (dtheta_dy ! k))"
proof -
  from assms have "has_shape ny nx (dtheta_dx ! k)" "has_shape ny nx (dtheta_dy ! k)"
    by (simp_all add: list_all_length)
  then show ?thesis by (rule grid_map2_has_shape)
qed

lemma zip_bcast_singletons:
  assumes "f a b = Inr c"
  shows "zip_bcast f [a] [b] = Inr [c]"
  using assms by (simp add: zip_bcast_def bcast_len_def stretch_def)




lemma grid_map2_nth:
  assumes "has_shape ny nx a" and "has_shape ny nx b" and "r < ny" and "c < nx"
  shows "grid_map2 f a b ! r ! c = f (a ! r ! c) (b ! r ! c)"
proof -
  from assms have "length a = ny" "length b = ny" "length (a ! r) = nx" "length (b ! r) = nx"
    by (simp_all add: has_shape_def list_all_length)
  with assms(3,4) show ?thesis by (simp add: grid_map2_def)
qed

lemma hypot_is_root_of_squares: "hypot = fl_op2 (\<lambda>x y. sqrt (x\<^sup>2 + y\<^sup>2))"
  by (intro ext) (simp add: hypot_def)

lemma gradient_tendency_single:
  assumes g: "mp_geospatial_gradient env (in_theta inp) (in_dx inp) (in_dy inp) =
              Inr (dtheta_dx, dtheta_dy)"
    and lx: "length dtheta_dx = length (in_time inp)"
    and ly: "length dtheta_dy = length (in_time inp)"
    and sx: "list_all (has_shape ny nx) dtheta_dx" and sy: "list_all (has_shape ny nx) dtheta_dy"
    and i: "i < length (in_time inp)" and ti: "in_time inp ! i = target - 3600"
    and ci: "count_list (in_time inp) (target - 3600) = 1"
    and j: "j < length (in_time inp)" and tj: "in_time inp ! j = target + 3600"
    and cj: "count_list (in_time inp) (target + 3600) = 1"
  shows "gradient_tendency env inp target =
     Inr (Mat (grid_map2 (\<lambda>x y. fl_op2 (\<lambda>a b. a / b) (fl_op2 (\<lambda>a b. a - b) x y) (Fin 7200))
                 (grid_map2 hypot (dtheta_dx ! j) (dtheta_dy ! j))
                 (grid_map2 hypot (dtheta_dx ! i) (dtheta_dy ! i))))"
proof -
  let ?gm = "map (\<lambda>(a, b). grid_map2 hypot a b) (zip dtheta_dx dtheta_dy)"
  let ?A = "grid_map2 hypot (dtheta_dx ! j) (dtheta_dy ! j)"
  let ?B = "grid_map2 hypot (dtheta_dx ! i) (dtheta_dy ! i)"
  have gm: "gradient_magnitude env inp = Inr ?gm"
    using g lx ly sx sy by (rule gradient_magnitude_ok)
  have len: "length (in_time inp) = length ?gm" using lx ly by simp
  have "mask_select (map (\<lambda>t. t = target + 3600) (in_time inp)) ?gm = Inr [?gm ! j]"
    using len j tj cj by (rule mask_select_single)
  then have after: "mask_select (map (\<lambda>t. t = target + 3600) (in_time inp)) ?gm = Inr [?A]"
    unfolding magnitude_nth [OF lx ly j] .
  have "mask_select (map (\<lambda>t. t = target - 3600) (in_time inp)) ?gm = Inr [?gm ! i]"
    using len i ti ci by (rule mask_select_single)
  then have before: "mask_select (map (\<lambda>t. t = target - 3600) (in_time inp)) ?gm = Inr [?B]"
    unfolding magnitude_nth [OF lx ly i] .
  have sA: "has_shape ny nx ?A" using lx ly j sx sy by (rule magnitude_has_shape)
  have sB: "has_shape ny nx ?B" using lx ly i sx sy by (rule magnitude_has_shape)
  have "grid_op2 (fl_op2 (\<lambda>a b. a - b)) ?A ?B = Inr (grid_map2 (fl_op2 (\<lambda>a b. a - b)) ?A ?B)"
    using sA sB by (rule grid_op2_same_shape)
  then have change: "zip_bcast (grid_op2 (fl_op2 (\<lambda>a b. a - b))) [?A] [?B] =
                     Inr [grid_map2 (fl_op2 (\<lambda>a b. a - b)) ?A ?B]"
    by (rule zip_bcast_singletons)
  have iv: "real_of_int (target + 3600 - (target - 3600)) = 7200" by simp
  show ?thesis
    unfolding gradient_tendency_def gm sum.case Let_def after before change iv
    by (simp add: squeeze_def map_grid_map2)
qed




subsection \<open>Selection at the target time and the statistics\<close>






text \<open>
  Claim C5. When the times one hour before and one hour after the target each occur once
  in the time coordinate, and the gradient operator returns one grid of the common shape
  per time step, the tendency is, element by element, the gradient magnitude at the later
  time minus the gradient magnitude at the earlier time, divided by 7200, the magnitude
  being the square root of the sum of the squares of the two derivatives: where the four
  derivatives are numbers \<open>xa\<close>, \<open>ya\<close> (later time) and \<open>xb\<close>, \<open>yb\<close> (earlier time), the
  element is \<open>(sqrt (xa\<^sup>2 + ya\<^sup>2) - sqrt (xb\<^sup>2 + yb\<^sup>2)) / 7200\<close>, and where one of them is
  missing the element is missing.
\<close>

theorem tendency_is_centered_difference_over_7200:
  assumes "mp_geospatial_gradient env (in_theta inp) (in_dx inp) (in_dy inp) =
             Inr (dtheta_dx, dtheta_dy)"
    and "length dtheta_dx = length (in_time inp)"
    and "length dtheta_dy = length (in_time inp)"
    and "list_all (has_shape ny nx) dtheta_dx" and "list_all (has_shape ny nx) dtheta_dy"
    and "i < length (in_time inp)" and "in_time inp ! i = target - 3600"
    and "count_list (in_time inp) (target - 3600) = 1"
    and "j < length (in_time inp)" and "in_time inp ! j = target + 3600"
    and "count_list (in_time inp) (target + 3600) = 1"
  shows "\<exists>tendency.
     gradient_tendency env inp target = Inr (Mat tendency) \<and>
     tendency =
       grid_map2 (\<lambda>x y. fl_op2 (\<lambda>a b. a / b) (fl_op2 (\<lambda>a b. a - b) x y) (Fin 7200))
         (grid_map2 (fl_op2 (\<lambda>x y. sqrt (x\<^sup>2 + y\<^sup>2))) (dtheta_dx ! j) (dtheta_dy ! j))
         (grid_map2 (fl_op2 (\<lambda>x y. sqrt (x\<^sup>2 + y\<^sup>2))) (dtheta_dx ! i) (dtheta_dy ! i)) \<and>
     has_shape ny nx tendency \<and>
     (\<forall>r < ny. \<forall>c < nx.
        (\<forall>xa ya xb yb.
           dtheta_dx ! j ! r ! c = Fin xa \<and> dtheta_dy ! j ! r ! c = Fin ya \<and>
           dtheta_dx ! i ! r ! c = Fin xb \<and> dtheta_dy ! i ! r ! c = Fin yb \<longrightarrow>
           tendency ! r ! c = Fin ((sqrt (xa\<^sup>2 + ya\<^sup>2) - sqrt (xb\<^sup>2 + yb\<^sup>2)) / 7200)) \<and>
        (dtheta_dx ! j ! r ! c = NaN \<or> dtheta_dy ! j ! r ! c = NaN \<or>
         dtheta_dx ! i ! r ! c = NaN \<or> dtheta_dy ! i ! r ! c = NaN \<longrightarrow>
           tendency ! r ! c = NaN))"
proof -
  let ?root = "fl_op2 (\<lambda>x y. sqrt (x\<^sup>2 + y\<^sup>2))"
  let ?A = "grid_map2 ?root (dtheta_dx ! j) (dtheta_dy ! j)"
  let ?B = "grid_map2 ?root (dtheta_dx ! i) (dtheta_dy ! i)"
  let ?quot = "\<lambda>x y. fl_op2 (\<lambda>a b. a / b) (fl_op2 (\<lambda>a b. a - b) x y) (Fin 7200)"
  let ?T = "grid_map2 ?quot ?A ?B"
  have t: "gradient_tendency env inp target = Inr (Mat ?T)"
    using gradient_tendency_single [OF assms] unfolding hypot_is_root_of_squares .
  have sxj: "has_shape ny nx (dtheta_dx ! j)" and syj: "has_shape ny nx (dtheta_dy ! j)"
    and sxi: "has_shape ny nx (dtheta_dx ! i)" and syi: "has_shape ny nx (dtheta_dy ! i)"
    using assms by (simp_all add: list_all_length)
  have sA: "has_shape ny nx ?A" using sxj syj by (rule grid_map2_has_shape)
  have sB: "has_shape ny nx ?B" using sxi syi by (rule grid_map2_has_shape)
  have sT: "has_shape ny nx ?T" using sA sB by (rule grid_map2_has_shape)
  have el: "?T ! r ! c =
      ?quot (?root (dtheta_dx ! j ! r ! c) (dtheta_dy ! j ! r ! c))
            (?root (dtheta_dx ! i ! r ! c) (dtheta_dy ! i ! r ! c))"
    if "r < ny" "c < nx" for r c
    using that
    by (simp add: grid_map2_nth [OF sA sB] grid_map2_nth [OF sxj syj] grid_map2_nth [OF sxi syi])
  have fin: "?T ! r ! c = Fin ((sqrt (xa\<^sup>2 + ya\<^sup>2) - sqrt (xb\<^sup>2 + yb\<^sup>2)) / 7200)"
    if "r < ny" "c < nx"
      "dtheta_dx ! j ! r ! c = Fin xa \<and> dtheta_dy ! j ! r ! c = Fin ya \<and>
       dtheta_dx ! i ! r ! c = Fin xb \<and> dtheta_dy ! i ! r ! c = Fin yb" for r c xa ya xb yb
    using that by (simp add: el)
  have nan: "?T ! r ! c = NaN"
    if "r < ny" "c < nx"
      "dtheta_dx ! j ! r ! c = NaN \<or> dtheta_dy ! j ! r ! c = NaN \<or>
       dtheta_dx ! i ! r ! c = NaN \<or> dtheta_dy ! i ! r ! c = NaN" for r c
  proof -
    have l: "fl_op2 h NaN y = NaN" for h y by (cases y) simp_all
    have m: "fl_op2 h x NaN = NaN" for h x by (cases x) simp_all
    from that(3) show ?thesis unfolding el [OF that(1,2)] by (auto simp: l m)
  qed
  from t sT fin nan show ?thesis by blast
qed

theorem tendency_is_centered_difference_witness:
  "gradient_tendency (ex_gradient_env [TARGET_TIME - 3600, TARGET_TIME, TARGET_TIME + 3600])
     (ex_front_input [TARGET_TIME - 3600, TARGET_TIME, TARGET_TIME + 3600]) TARGET_TIME =
   Inr (Mat [[Fin (5 / 7200), Fin (10 / 7200)], [Fin (13 / 7200), Fin (- 13 / 7200)]])"
proof -
  let ?ts = "[TARGET_TIME - 3600, TARGET_TIME, TARGET_TIME + 3600]"
  let ?env = "ex_gradient_env ?ts" and ?inp = "ex_front_input ?ts"
  have g: "mp_geospatial_gradient ?env (in_theta ?inp) (in_dx ?inp) (in_dy ?inp) =
      Inr (ex_dtheta_dx, ex_dtheta_dy)"
    by (simp add: ex_gradient_env_def)
  have lx: "length ex_dtheta_dx = length (in_time ?inp)"
    and ly: "length ex_dtheta_dy = length (in_time ?inp)"
    by (simp_all add: ex_front_input_def ex_dtheta_dx_def ex_dtheta_dy_def)
  have sx: "list_all (has_shape 2 2) ex_dtheta_dx" and sy: "list_all (has_shape 2 2) ex_dtheta_dy"
    by (simp_all add: ex_dtheta_dx_def ex_dtheta_dy_def has_shape_def)
  have i: "0 < length (in_time ?inp)" and ti: "in_time ?inp ! 0 = TARGET_TIME - 3600"
    and ci: "count_list (in_time ?inp) (TARGET_TIME - 3600) = 1"
    and j: "2 < length (in_time ?inp)" and tj: "in_time ?inp ! 2 = TARGET_TIME + 3600"
    and cj: "count_list (in_time ?inp) (TARGET_TIME + 3600) = 1"
    by (simp_all add: ex_front_input_def)
  have r: "sqrt 25 = 5" "sqrt 100 = 10" "sqrt 169 = 13"
    using real_sqrt_abs [of 5] real_sqrt_abs [of 10] real_sqrt_abs [of 13] by simp_all
  from tendency_is_centered_difference_over_7200 [OF g lx ly sx sy i ti ci j tj cj]
  show ?thesis
    by (simp add: ex_dtheta_dx_def ex_dtheta_dy_def grid_map2_def r)
qed




end
